theory Spec2Isabelle
  imports Complex_Main "HOL-Library.Log_Nat"
begin

text \<open>
  A model of the real-time feed core of the dashboard server: the decoder of Blitzortung
  frames, the in-memory lightning store, the two upstream connectors, the registries of
  SSE clients with their broadcast, the subscriber session, and the handler of AISStream
  position reports.  Module state is passed explicitly; what the environment decides
  (whether a constructor or a write throws, \<open>Date.now()\<close>, \<open>nanoid()\<close>,
  \<open>process.env\<close>, a network fetch) is a parameter.  The definitions come first, the
  properties after them.
\<close>

section \<open>JavaScript numbers\<close>

text \<open>
  A JavaScript \<open>number\<close> is an IEEE 754 binary64 value.  The finite ones are modelled by
  the rational they denote, next to \<open>NaN\<close> and the two infinities.  The two zeros
  \<open>+0\<close> and \<open>-0\<close> are one value here: nothing below divides by zero or prints a sign.
\<close>

datatype jsnum = NaN | PInf | NInf | Fin rat

text \<open>Rounding a rational to the nearest integer, ties to the even one.\<close>

definition round_half_even :: "rat \<Rightarrow> int" where
  "round_half_even x =
     (let f = \<lfloor>x\<rfloor>; r = x - of_int f
      in if r < 1 / 2 then f
         else if 1 / 2 < r then f + 1
         else if even f then f else f + 1)"

text \<open>\<open>ilog2 a\<close> is the binary exponent of a positive rational: \<open>2^e \<le> a < 2^(e+1)\<close>.\<close>

definition ilog2 :: "rat \<Rightarrow> int" where
  "ilog2 a = (case quotient_of a of (n, d) \<Rightarrow>
      (let k = bitlen n - bitlen d in if 2 powi k \<le> a then k else k - 1))"

text \<open>
  Round to nearest, ties to even, with 53 bits of precision, gradual underflow below
  \<open>2^-1022\<close> and overflow to infinity: what every arithmetic operation and every
  conversion from a decimal numeral does to its exact result.  (The language lets
  \<open>parseInt\<close> and \<open>parseFloat\<close> approximate a numeral of more than 20 significant
  digits; the rounding here is the exact one, which the engines implement.)
\<close>

definition round64 :: "rat \<Rightarrow> jsnum" where
  "round64 q =
     (if q = 0 then Fin 0
      else let a = \<bar>q\<bar>;
               p = max (ilog2 a - 52) (- 1074);
               v = of_int (round_half_even (a / 2 powi p)) * 2 powi p
           in if 2 ^ 1024 \<le> v then (if 0 < q then PInf else NInf)
              else Fin (if 0 < q then v else - v))"

text \<open>The relational operators: every comparison with \<open>NaN\<close> is false.\<close>

fun js_lt :: "jsnum \<Rightarrow> jsnum \<Rightarrow> bool" where
  "js_lt NaN _ = False"
| "js_lt _ NaN = False"
| "js_lt PInf _ = False"
| "js_lt _ NInf = False"
| "js_lt NInf _ = True"
| "js_lt _ PInf = True"
| "js_lt (Fin x) (Fin y) = (x < y)"

definition js_gt :: "jsnum \<Rightarrow> jsnum \<Rightarrow> bool" where
  "js_gt a b = js_lt b a"

text \<open>Division by a finite positive constant, the only division the code performs.\<close>

fun js_div_pos :: "jsnum \<Rightarrow> rat \<Rightarrow> jsnum" where
  "js_div_pos (Fin x) d = round64 (x / d)"
| "js_div_pos a d = a"

fun Math_floor :: "jsnum \<Rightarrow> jsnum" where
  "Math_floor (Fin x) = Fin (of_int \<lfloor>x\<rfloor>)"
| "Math_floor a = a"

fun Math_abs :: "jsnum \<Rightarrow> jsnum" where
  "Math_abs (Fin x) = Fin \<bar>x\<bar>"
| "Math_abs NInf = PInf"
| "Math_abs a = a"

text \<open>Truthiness of a number: \<open>!x\<close> holds for zero and \<open>NaN\<close>.\<close>

fun js_falsy :: "jsnum \<Rightarrow> bool" where
  "js_falsy NaN = True"
| "js_falsy (Fin x) = (x = 0)"
| "js_falsy _ = False"

section \<open>JavaScript strings\<close>

text \<open>
  A string is a sequence of UTF-16 code units.  \<open>ascii\<close> embeds a literal of the
  source; the code units above \<open>0x7F\<close> are what the decoder calls noise.
\<close>

type_synonym cu = nat
type_synonym jsstring = "cu list"

definition ascii :: "string \<Rightarrow> jsstring" where
  "ascii s = map of_char s"

definition is_digit :: "cu \<Rightarrow> bool" where
  "is_digit c = (48 \<le> c \<and> c \<le> 57)"

text \<open>The character class \<open>[-\d.]\<close>.\<close>

definition is_numch :: "cu \<Rightarrow> bool" where
  "is_numch c = (c = 45 \<or> c = 46 \<or> is_digit c)"

text \<open>The value of a run of decimal digits.\<close>

definition dec :: "jsstring \<Rightarrow> nat" where
  "dec ds = foldl (\<lambda>acc c. 10 * acc + (c - 48)) 0 ds"

text \<open>
  \<open>parseInt(s, 10)\<close> on a string that starts with its digits, as the capture group
  \<open>(\d+)\<close> delivers it (white space and a sign cannot occur there).
\<close>

definition parseInt :: "jsstring \<Rightarrow> jsnum" where
  "parseInt s = (let ds = takeWhile is_digit s
                 in if ds = [] then NaN else round64 (of_nat (dec ds)))"

text \<open>
  \<open>parseFloat(s)\<close> on a string over \<open>[-\d.]\<close>, as the capture group
  \<open>([-\d.]+)\<close> delivers it: the longest prefix that is a decimal literal (an optional
  minus sign, digits, an optional fraction) is converted, and \<open>NaN\<close> results when
  there is no such prefix.  Exponents, \<open>Infinity\<close>, a plus sign and white space cannot
  occur in such a string.
\<close>

definition parseFloat :: "jsstring \<Rightarrow> jsnum" where
  "parseFloat s =
     (let neg = (s \<noteq> [] \<and> hd s = 45);
          s1 = (if neg then tl s else s);
          ip = takeWhile is_digit s1;
          rest = dropWhile is_digit s1;
          fp = (case rest of [] \<Rightarrow> [] | c # r \<Rightarrow> if c = 46 then takeWhile is_digit r else []);
          v = of_nat (dec ip) + of_nat (dec fp) / 10 ^ length fp
      in if ip = [] \<and> fp = [] then NaN
         else round64 (if neg then - v else v))"

section \<open>The Blitzortung decoder\<close>

record DecodedEvent =
  lat :: jsnum
  lon :: jsnum
  time :: jsnum

record LightningStrike = DecodedEvent +
  strike_id :: string

text \<open>An optional double quote, as \<open>"?\<close> matches it (greedy; nothing is gained by backtracking
  since the next pattern character is never a quote).\<close>

fun skip_quote :: "jsstring \<Rightarrow> jsstring" where
  "skip_quote [] = []"
| "skip_quote (c # s) = (if c = 34 then s else c # s)"

definition strip_prefix :: "jsstring \<Rightarrow> jsstring \<Rightarrow> jsstring option" where
  "strip_prefix p s = (if take (length p) s = p then Some (drop (length p) s) else None)"

text \<open>One attempt of \<open>"?key"?:(cls+)\<close> at the start of \<open>s\<close>; the result is the capture group.\<close>

definition match_at :: "jsstring \<Rightarrow> (cu \<Rightarrow> bool) \<Rightarrow> jsstring \<Rightarrow> jsstring option" where
  "match_at key cls s =
     (case strip_prefix key (skip_quote s) of
        None \<Rightarrow> None
      | Some s2 \<Rightarrow>
          (case skip_quote s2 of
             [] \<Rightarrow> None
           | c # s3 \<Rightarrow>
               if c = 58 then (let g = takeWhile cls s3 in if g = [] then None else Some g)
               else None))"

text \<open>\<open>String.prototype.match\<close> with a non-global pattern: the leftmost position that matches.\<close>

fun regex_match :: "jsstring \<Rightarrow> (cu \<Rightarrow> bool) \<Rightarrow> jsstring \<Rightarrow> jsstring option" where
  "regex_match key cls [] = match_at key cls []"
| "regex_match key cls (c # s) =
     (case match_at key cls (c # s) of
        Some g \<Rightarrow> Some g
      | None \<Rightarrow> regex_match key cls s)"

text \<open>Steps 1 and 2: the two structural substitutes, then every remaining non-ASCII code unit.\<close>

definition replace_structural :: "jsstring \<Rightarrow> jsstring" where
  "replace_structural str = map (\<lambda>c. if c = 0x119 then 44 else c) (map (\<lambda>c. if c = 0x106 then 58 else c) str)"

definition strip_noise :: "jsstring \<Rightarrow> jsstring" where
  "strip_noise s = filter (\<lambda>c. c \<le> 0x7F) s"

text \<open>
  \<open>decodeBlitzortung\<close>, from the string \<open>b.toString("utf8")\<close> on.
\<close>

definition decodeBlitzortung :: "jsstring \<Rightarrow> DecodedEvent option" where
  "decodeBlitzortung str =
     (let decoded = strip_noise (replace_structural str);
          timeMatch = regex_match (ascii ''time'') is_digit decoded;
          latMatch = regex_match (ascii ''lat'') is_numch decoded;
          lonMatch = regex_match (ascii ''lon'') is_numch decoded
      in case (timeMatch, latMatch, lonMatch) of
           (Some tm, Some la, Some lo) \<Rightarrow>
             (let rawTime = parseInt tm;
                  lat = parseFloat la;
                  lon = parseFloat lo
              in if js_lt lat (Fin (- 90)) \<or> js_gt lat (Fin 90)
                    \<or> js_lt lon (Fin (- 180)) \<or> js_gt lon (Fin 180)
                 then None
                 else Some \<lparr>lat = lat, lon = lon,
                        time = (if js_gt rawTime (Fin (10 ^ 15))
                                then Math_floor (js_div_pos rawTime (10 ^ 6))
                                else rawTime)\<rparr>)
         | _ \<Rightarrow> None)"

section \<open>The in-memory lightning store\<close>

text \<open>
  \<open>Array.prototype.slice(start)\<close> for an integer \<open>start\<close>: a negative start counts
  from the end and is clamped at the first element, a positive one is clamped at the
  length.  \<open>slice(-0)\<close> is \<open>slice(0)\<close>, the whole array.
\<close>

definition js_slice :: "int \<Rightarrow> 'a list \<Rightarrow> 'a list" where
  "js_slice start xs =
     (let len = int (length xs);
          k = (if start < 0 then max (len + start) 0 else min start len)
      in drop (nat k) xs)"

text \<open>
  The class \<open>LightningStore\<close>: its three fields, \<open>maxSize\<close> being initialised to 500.
  The counter \<open>total\<close> is a natural number (a binary64 counter is exact up to \<open>2^53\<close>).
\<close>

record LightningStore =
  strikes :: "LightningStrike list"
  total :: nat
  maxSize :: nat

definition new_LightningStore :: LightningStore where
  "new_LightningStore = \<lparr>strikes = [], total = 0, maxSize = 500\<rparr>"

definition add :: "LightningStrike \<Rightarrow> LightningStore \<Rightarrow> LightningStore" where
  "add strike st =
     (let st1 = st\<lparr>strikes := strikes st @ [strike], total := total st + 1\<rparr>
      in if length (strikes st1) > maxSize st1
         then st1\<lparr>strikes := js_slice (- int (maxSize st1)) (strikes st1)\<rparr>
         else st1)"

definition getRecent :: "int \<Rightarrow> LightningStore \<Rightarrow> LightningStrike list" where
  "getRecent n st = js_slice (- n) (strikes st)"

definition getTotal :: "LightningStore \<Rightarrow> nat" where
  "getTotal st = total st"

text \<open>\<open>getLastMinute\<close>, with the value of \<open>Date.now()\<close> (integer milliseconds) as a parameter.\<close>

definition getLastMinute :: "int \<Rightarrow> LightningStore \<Rightarrow> nat" where
  "getLastMinute now st =
     (let oneMinuteAgo = Fin (of_int (now - 60000))
      in length (filter (\<lambda>s. js_gt (time s) oneMinuteAgo) (strikes st)))"

text \<open>The operations of the store as a client issues them; only \<open>add\<close> changes the store.\<close>

datatype store_op = Add LightningStrike | GetRecent int | GetTotal | GetLastMinute int

fun store_step :: "LightningStore \<Rightarrow> store_op \<Rightarrow> LightningStore" where
  "store_step st (Add s) = add s st"
| "store_step st (GetRecent n) = st"
| "store_step st GetTotal = st"
| "store_step st (GetLastMinute now) = st"

text \<open>The strikes a sequence of operations inserts, in order.\<close>

fun inserted :: "store_op list \<Rightarrow> LightningStrike list" where
  "inserted [] = []"
| "inserted (Add s # ops) = s # inserted ops"
| "inserted (_ # ops) = inserted ops"

text \<open>
  The invariant of a run: the buffer holds the last \<open>min (length h) C\<close> strikes of the
  insertion history \<open>h\<close>, and \<open>total\<close> counts all of them.
\<close>

definition store_inv :: "nat \<Rightarrow> LightningStrike list \<Rightarrow> LightningStore \<Rightarrow> bool" where
  "store_inv C h st =
     (maxSize st = C \<and> total st = length h \<and> length (strikes st) \<le> C
      \<and> strikes st = drop (length h - min (length h) C) h)"

text \<open>A store of another capacity, for the scenarios of the specification.\<close>

definition store_of_capacity :: "nat \<Rightarrow> LightningStore" where
  "store_of_capacity C = new_LightningStore\<lparr>maxSize := C\<rparr>"

text \<open>The scenario of the specification: capacity 3 and the four strikes A, B, C, D.\<close>

definition strike_at :: "int \<Rightarrow> string \<Rightarrow> LightningStrike" where
  "strike_at t name = \<lparr>lat = Fin 0, lon = Fin 0, time = Fin (of_int t), strike_id = name\<rparr>"

section \<open>The upstream connectors\<close>

datatype readyState = CONNECTING | OPEN | CLOSING | CLOSED

record WebSocket =
  ws_url :: string
  readyState :: readyState

text \<open>
  The module state of the Blitzortung proxy.  Socket objects live in \<open>sockets\<close>, in the
  order of their creation, and a reference to one is its index; \<open>reconnectTimer\<close> holds
  the delay of the pending timer (\<open>scheduleReconnect\<close> is the only place that sets a
  timer, and it clears the previous one first).
\<close>

record Blitz =
  currentServerIndex :: nat
  blitzortungWs :: "nat option"
  reconnectTimer :: "nat option"
  isConnecting :: bool
  sockets :: "WebSocket list"

definition BLITZORTUNG_SERVERS :: "string list" where
  "BLITZORTUNG_SERVERS =
     [''wss://ws1.blitzortung.org'', ''wss://ws7.blitzortung.org'', ''wss://ws8.blitzortung.org'']"

text \<open>\<open>ws && ws.readyState === WebSocket.OPEN\<close>.\<close>

definition ws_open :: "WebSocket list \<Rightarrow> nat option \<Rightarrow> bool" where
  "ws_open heap r =
     (case r of None \<Rightarrow> False | Some i \<Rightarrow> i < length heap \<and> readyState (heap ! i) = OPEN)"

definition scheduleReconnect :: "nat \<Rightarrow> Blitz \<Rightarrow> Blitz" where
  "scheduleReconnect delay st = st\<lparr>reconnectTimer := Some delay\<rparr>"

text \<open>
  \<open>connectBlitzortung\<close>; the parameter says whether the constructor \<open>new WebSocket\<close>
  throws.  The handlers it registers on the new socket are \<open>blitz_on_open\<close>,
  \<open>blitz_on_error\<close> and \<open>blitz_on_close\<close> below, and \<open>blitz_on_message\<close> further
  down.
\<close>

definition connectBlitzortung :: "bool \<Rightarrow> Blitz \<Rightarrow> Blitz" where
  "connectBlitzortung ctor_throws st =
     (if isConnecting st \<or> ws_open (sockets st) (blitzortungWs st) then st
      else
        let serverUrl = BLITZORTUNG_SERVERS ! (currentServerIndex st mod length BLITZORTUNG_SERVERS);
            st1 = st\<lparr>isConnecting := True, currentServerIndex := currentServerIndex st + 1\<rparr>
        in if ctor_throws then scheduleReconnect 5000 (st1\<lparr>isConnecting := False\<rparr>)
           else st1\<lparr>sockets := sockets st1 @ [\<lparr>ws_url = serverUrl, readyState = CONNECTING\<rparr>],
                    blitzortungWs := Some (length (sockets st1))\<rparr>)"















text \<open>
  The environment \<open>process.env\<close>; \<open>!apiKey\<close> holds for an unset variable and for the
  empty string.
\<close>

type_synonym env = "string \<rightharpoonup> string"

definition no_key :: "string option \<Rightarrow> bool" where
  "no_key k = (case k of None \<Rightarrow> True | Some v \<Rightarrow> v = [])"

text \<open>The module state of the AISStream proxy.\<close>

record Ais =
  aisWs :: "nat option"
  ais_reconnectTimer :: "nat option"
  ais_isConnecting :: bool
  ais_sockets :: "WebSocket list"

definition ais_scheduleReconnect :: "nat \<Rightarrow> Ais \<Rightarrow> Ais" where
  "ais_scheduleReconnect delay st = st\<lparr>ais_reconnectTimer := Some delay\<rparr>"

definition connectAISStream :: "env \<Rightarrow> bool \<Rightarrow> Ais \<Rightarrow> Ais" where
  "connectAISStream penv ctor_throws st =
     (if no_key (penv ''AISSTREAM_API_KEY'') then st
      else if ais_isConnecting st \<or> ws_open (ais_sockets st) (aisWs st) then st
      else
        let st1 = st\<lparr>ais_isConnecting := True\<rparr>
        in if ctor_throws then ais_scheduleReconnect 10000 (st1\<lparr>ais_isConnecting := False\<rparr>)
           else st1\<lparr>ais_sockets := ais_sockets st1
                        @ [\<lparr>ws_url = ''wss://stream.aisstream.io/v0/stream'', readyState = CONNECTING\<rparr>],
                    aisWs := Some (length (ais_sockets st1))\<rparr>)"

datatype ais_status = Connected_status | Disconnected_status | Disabled_status

definition getAISStreamStatus :: "env \<Rightarrow> Ais \<Rightarrow> ais_status" where
  "getAISStreamStatus penv st =
     (if no_key (penv ''AISSTREAM_API_KEY'') then Disabled_status
      else if aisWs st = None then Disconnected_status
      else if ws_open (ais_sockets st) (aisWs st) then Connected_status else Disconnected_status)"

section \<open>The satellite queries\<close>

record SatelliteRecord =
  sat_id :: jsnum
  sat_name :: string
  latitude :: jsnum
  longitude :: jsnum
  altitude :: jsnum
  category :: "string option"

record tracked_result =
  available :: bool
  message :: "string option"
  count :: "nat option"
  satellites :: "SatelliteRecord list"

text \<open>
  \<open>satellites.tracked\<close>.  The network fetch \<open>fetchAllSatellites\<close> is a parameter: it
  returns the records or throws (\<open>Inl\<close>).  The result of the procedure is \<open>Inr\<close> of
  what it returns, \<open>Inl\<close> of what it throws.
\<close>

definition satellites_tracked ::
  "env \<Rightarrow> (string \<Rightarrow> string + SatelliteRecord list) \<Rightarrow> string + tracked_result" where
  "satellites_tracked penv fetchAllSatellites =
     (if no_key (penv ''N2YO_API_KEY'')
      then Inr \<lparr>available = False, message = Some ''N2YO API key not configured'',
                count = None, satellites = []\<rparr>
      else
        (case fetchAllSatellites (the (penv ''N2YO_API_KEY'')) of
           Inr sats \<Rightarrow> Inr \<lparr>available = True, message = None,
                            count = Some (length sats), satellites = sats\<rparr>
         | Inl err \<Rightarrow> Inr \<lparr>available = False, message = Some ''Failed to fetch satellite data'',
                           count = None, satellites = []\<rparr>))"

text \<open>
  \<open>satellites.position\<close>, the other query of the satellite router, throws when the key
  is absent; \<open>fetchPinnedPosition\<close> is a parameter as above.
\<close>

definition satellites_position ::
  "env \<Rightarrow> (jsnum \<Rightarrow> string \<Rightarrow> string + SatelliteRecord) \<Rightarrow> jsnum \<Rightarrow> string + SatelliteRecord" where
  "satellites_position penv fetchPinnedPosition satId =
     (if no_key (penv ''N2YO_API_KEY'') then Inl ''N2YO API key not configured''
      else fetchPinnedPosition satId (the (penv ''N2YO_API_KEY'')))"

text \<open>The AISStream module when it is loaded, and two environments with one key each.\<close>

definition ais_init :: Ais where
  "ais_init = \<lparr>aisWs = None, ais_reconnectTimer = None, ais_isConnecting = False, ais_sockets = []\<rparr>"

definition only_n2yo :: env where
  "only_n2yo = [''N2YO_API_KEY'' \<mapsto> ''k1'']"

definition only_aisstream :: env where
  "only_aisstream = [''AISSTREAM_API_KEY'' \<mapsto> ''k2'']"

section \<open>Maps and the registries of SSE clients\<close>

text \<open>
  A JavaScript \<open>Map\<close> keeps its entries in insertion order with distinct keys:
  \<open>set\<close> on a key that is present replaces the value in place, \<open>delete\<close> removes
  the entry.
\<close>

definition Map_set :: "'k \<Rightarrow> 'v \<Rightarrow> ('k \<times> 'v) list \<Rightarrow> ('k \<times> 'v) list" where
  "Map_set k v m =
     (if k \<in> fst ` set m then map (\<lambda>(k', v'). if k' = k then (k', v) else (k', v')) m
      else m @ [(k, v)])"

definition Map_delete :: "'k \<Rightarrow> ('k \<times> 'v) list \<Rightarrow> ('k \<times> 'v) list" where
  "Map_delete k m = filter (\<lambda>(k', v'). k' \<noteq> k) m"

record VesselPoint =
  mmsi :: jsstring
  name :: jsstring
  vessel_lat :: jsnum
  vessel_lon :: jsnum
  cog :: jsnum
  sog :: jsnum
  heading :: jsnum
  vessel_time :: jsnum
  shipType :: "jsnum option"

text \<open>
  What is written to a response: the payload of a \<open>data:\<close> line before
  \<open>JSON.stringify\<close>, or the heartbeat comment.
\<close>

datatype sse_msg =
    Connected string
  | History "LightningStrike list"
  | Strike LightningStrike
  | Snapshot "VesselPoint list"
  | Vessel VesselPoint
  | Heartbeat

text \<open>
  A response object is a handle; \<open>written\<close> is what each has received.  Whether a
  \<open>res.write\<close> throws is up to the transport: an oracle of that type is a parameter of
  everything that writes.
\<close>

type_synonym res = nat
type_synonym write_oracle = "res \<Rightarrow> sse_msg \<Rightarrow> bool"

record sse_hub =
  sseClients :: "(string \<times> res) list"
  written :: "res \<Rightarrow> sse_msg list"

definition addSSEClient :: "string \<Rightarrow> res \<Rightarrow> sse_hub \<Rightarrow> sse_hub" where
  "addSSEClient cid r h = h\<lparr>sseClients := Map_set cid r (sseClients h)\<rparr>"

definition removeSSEClient :: "string \<Rightarrow> sse_hub \<Rightarrow> sse_hub" where
  "removeSSEClient cid h = h\<lparr>sseClients := Map_delete cid (sseClients h)\<rparr>"

definition res_write :: "res \<Rightarrow> sse_msg \<Rightarrow> sse_hub \<Rightarrow> sse_hub" where
  "res_write r msg h = h\<lparr>written := (written h)(r := written h r @ [msg])\<rparr>"

text \<open>
  The callback of \<open>sseClients.forEach\<close>: the state it works on is the hub and the local
  array \<open>toDelete\<close>.
\<close>

definition try_write ::
  "write_oracle \<Rightarrow> sse_msg \<Rightarrow> sse_hub \<times> string list \<Rightarrow> string \<times> res \<Rightarrow> sse_hub \<times> string list" where
  "try_write throws msg acc entry =
     (case acc of (h, toDelete) \<Rightarrow>
        (case entry of (cid, r) \<Rightarrow>
           if throws r msg then (h, toDelete @ [cid])
           else (res_write r msg h, toDelete)))"

text \<open>The body shared by \<open>broadcastLightning\<close> and \<open>broadcastVessel\<close>.\<close>

definition broadcast :: "write_oracle \<Rightarrow> sse_msg \<Rightarrow> sse_hub \<Rightarrow> sse_hub" where
  "broadcast throws msg h =
     (case foldl (try_write throws msg) (h, []) (sseClients h) of
        (h1, toDelete) \<Rightarrow> foldl (\<lambda>h' cid. removeSSEClient cid h') h1 toDelete)"

definition broadcastLightning :: "write_oracle \<Rightarrow> LightningStrike \<Rightarrow> sse_hub \<Rightarrow> sse_hub" where
  "broadcastLightning throws strike h = broadcast throws (Strike strike) h"

definition broadcastVessel :: "write_oracle \<Rightarrow> VesselPoint \<Rightarrow> sse_hub \<Rightarrow> sse_hub" where
  "broadcastVessel throws vessel h = broadcast throws (Vessel vessel) h"

section \<open>The lightning stream\<close>

text \<open>
  The state the lightning proxy works on: the store, the registry of its module, and the
  interval timers of the heartbeats.
\<close>

record lightning_server =
  lightningStore :: LightningStore
  hub :: sse_hub
  heartbeats :: "(string \<times> res) list"

text \<open>
  The \<open>message\<close> handler of the Blitzortung socket, from the decoded string on;
  \<open>nid\<close> is the result of \<open>nanoid(8)\<close>.
\<close>

definition blitz_on_message ::
  "write_oracle \<Rightarrow> string \<Rightarrow> jsstring \<Rightarrow> lightning_server \<Rightarrow> lightning_server" where
  "blitz_on_message throws nid raw sv =
     (case decodeBlitzortung raw of
        None \<Rightarrow> sv
      | Some decoded \<Rightarrow>
          (let strike = \<lparr>lat = lat decoded, lon = lon decoded, time = time decoded, strike_id = nid\<rparr>
           in sv\<lparr>lightningStore := add strike (lightningStore sv),
                 hub := broadcastLightning throws strike (hub sv)\<rparr>))"

text \<open>
  \<open>handleLightningSSE\<close>; \<open>clientId\<close> is the result of \<open>nanoid()\<close>.  The two writes
  are not guarded: when one throws, the handler throws with what it did so far.
\<close>

datatype outcome = Returned | Threw

definition handleLightningSSE ::
  "write_oracle \<Rightarrow> string \<Rightarrow> res \<Rightarrow> lightning_server \<Rightarrow> outcome \<times> lightning_server" where
  "handleLightningSSE throws clientId r sv =
     (if throws r (Connected clientId) then (Threw, sv)
      else
        let sv1 = sv\<lparr>hub := res_write r (Connected clientId) (hub sv)\<rparr>;
            recent = getRecent 50 (lightningStore sv1)
        in if length recent > 0 \<and> throws r (History recent) then (Threw, sv1)
           else
             let sv2 = (if length recent > 0
                        then sv1\<lparr>hub := res_write r (History recent) (hub sv1)\<rparr> else sv1)
             in (Returned, sv2\<lparr>hub := addSSEClient clientId r (hub sv2),
                              heartbeats := heartbeats sv2 @ [(clientId, r)]\<rparr>))"

section \<open>The vessel stream\<close>

record VesselStore =
  vessels :: "(jsstring \<times> VesselPoint) list"
  vessel_maxSize :: nat

definition new_VesselStore :: VesselStore where
  "new_VesselStore = \<lparr>vessels = [], vessel_maxSize = 500\<rparr>"

definition getAll :: "VesselStore \<Rightarrow> VesselPoint list" where
  "getAll st = map snd (vessels st)"

definition getCount :: "VesselStore \<Rightarrow> nat" where
  "getCount st = length (vessels st)"

definition isAvailable :: "env \<Rightarrow> bool" where
  "isAvailable penv = (\<not> no_key (penv ''AISSTREAM_API_KEY''))"

definition update :: "VesselPoint \<Rightarrow> VesselStore \<Rightarrow> VesselStore" where
  "update vessel st =
     (let m = Map_set (mmsi vessel) vessel (vessels st)
      in if length m > vessel_maxSize st
         then (case m of
                 [] \<Rightarrow> st\<lparr>vessels := m\<rparr>
               | (firstKey, v) # rest \<Rightarrow>
                   if firstKey \<noteq> [] then st\<lparr>vessels := Map_delete firstKey m\<rparr>
                   else st\<lparr>vessels := m\<rparr>)
         else st\<lparr>vessels := m\<rparr>)"

text \<open>
  An inbound message after \<open>JSON.parse\<close>, with the fields the handler reads; an absent
  or \<open>null\<close> field is \<open>None\<close>.  \<open>meta_Latitude\<close> and \<open>meta_Longitude\<close> are the
  fields \<open>Latitude\<close> and \<open>Longitude\<close> of \<open>Metadata\<close>.
\<close>

datatype json_id = IdNum jsnum | IdStr jsstring

record AisPositionReport =
  Cog :: "jsnum option"
  Sog :: "jsnum option"
  TrueHeading :: "jsnum option"
  ShipType :: "jsnum option"
  Latitude :: "jsnum option"
  Longitude :: "jsnum option"
  UserID :: "jsnum option"

record AisMetadata =
  MMSI :: "json_id option"
  ShipName :: "jsstring option"
  meta_Latitude :: "jsnum option"
  meta_Longitude :: "jsnum option"

record AisMessage =
  MessageType :: "jsstring option"
  Metadata :: "AisMetadata option"
  PositionReport :: "AisPositionReport option"

record vessel_server =
  vesselStore :: VesselStore
  vessel_hub :: sse_hub

text \<open>The nullish coalescing operator \<open>??\<close>.\<close>

definition nullish :: "'a option \<Rightarrow> 'a option \<Rightarrow> 'a option" where
  "nullish a b = (case a of Some x \<Rightarrow> Some x | None \<Rightarrow> b)"

text \<open>The white space \<open>String.prototype.trim\<close> removes at both ends.\<close>

definition is_space :: "cu \<Rightarrow> bool" where
  "is_space c = (c \<in> {9, 10, 11, 12, 13, 32, 0xA0, 0x1680, 0x2028, 0x2029, 0x202F, 0x205F,
                      0x3000, 0xFEFF} \<or> (0x2000 \<le> c \<and> c \<le> 0x200A))"

definition trim :: "jsstring \<Rightarrow> jsstring" where
  "trim s = rev (dropWhile is_space (rev (dropWhile is_space s)))"

text \<open>
  The \<open>message\<close> handler of the AISStream socket.  Its input is the result of
  \<open>JSON.parse\<close>, \<open>None\<close> when that throws (the handler catches it); \<open>num_str\<close> is
  \<open>String\<close> on a number, \<open>now\<close> the value of \<open>Date.now()\<close>, and \<open>latv\<close>,
  \<open>lonv\<close> are \<open>lat\<close> and \<open>lon\<close> once they are known not to be undefined.  The
  literal \<open>0.01\<close> denotes the binary64 value \<open>5764607523034235 / 2^59\<close>.
\<close>

definition ais_on_message ::
  "write_oracle \<Rightarrow> (jsnum \<Rightarrow> jsstring) \<Rightarrow> int \<Rightarrow> AisMessage option \<Rightarrow> vessel_server \<Rightarrow> vessel_server" where
  "ais_on_message throws num_str now parsed sv =
     (case parsed of
        None \<Rightarrow> sv
      | Some msg \<Rightarrow>
          if MessageType msg \<noteq> Some (ascii ''PositionReport'') then sv
          else
            let meta = Metadata msg;
                pos = PositionReport msg;
                lat = nullish (Option.bind pos Latitude) (Option.bind meta meta_Latitude);
                lon = nullish (Option.bind pos Longitude) (Option.bind meta meta_Longitude);
                mmsi = (case nullish (Option.bind meta MMSI)
                               (map_option IdNum (Option.bind pos UserID)) of
                          None \<Rightarrow> []
                        | Some (IdStr s) \<Rightarrow> s
                        | Some (IdNum n) \<Rightarrow> num_str n)
            in case (lat, lon) of
                 (Some latv, Some lonv) \<Rightarrow>
                   if js_falsy latv \<or> js_falsy lonv \<or> mmsi = [] then sv
                   else if js_lt latv (Fin (- 90)) \<or> js_gt latv (Fin 90)
                           \<or> js_lt lonv (Fin (- 180)) \<or> js_gt lonv (Fin 180) then sv
                   else if js_lt (Math_abs latv) (Fin (5764607523034235 / 2 ^ 59))
                           \<and> js_lt (Math_abs lonv) (Fin (5764607523034235 / 2 ^ 59)) then sv
                   else
                     let shipName = (case Option.bind meta ShipName of
                                       None \<Rightarrow> [] | Some s \<Rightarrow> trim s);
                         vessel = \<lparr>mmsi = mmsi,
                                   name = (if shipName \<noteq> [] then shipName else mmsi),
                                   vessel_lat = latv, vessel_lon = lonv,
                                   cog = (case Option.bind pos Cog of Some c \<Rightarrow> c | None \<Rightarrow> Fin 0),
                                   sog = (case Option.bind pos Sog of Some c \<Rightarrow> c | None \<Rightarrow> Fin 0),
                                   heading = (case nullish (Option.bind pos TrueHeading)
                                                     (Option.bind pos Cog) of
                                                Some c \<Rightarrow> c | None \<Rightarrow> Fin 0),
                                   vessel_time = Fin (of_int now),
                                   shipType = Option.bind pos ShipType\<rparr>
                     in sv\<lparr>vesselStore := update vessel (vesselStore sv),
                           vessel_hub := broadcastVessel throws vessel (vessel_hub sv)\<rparr>
               | _ \<Rightarrow> sv)"

text \<open>A report on the equator at longitude 10, and one near the origin, both complete.\<close>

definition report_at :: "rat \<Rightarrow> rat \<Rightarrow> AisMessage" where
  "report_at y x =
     \<lparr>MessageType = Some (ascii ''PositionReport''),
      Metadata = Some \<lparr>MMSI = Some (IdNum (Fin 211000000)), ShipName = Some (ascii ''EQUATOR ''),
                       meta_Latitude = None, meta_Longitude = None\<rparr>,
      PositionReport = Some \<lparr>Cog = Some (Fin 90), Sog = Some (Fin 12), TrueHeading = Some (Fin 90),
                             ShipType = None, Latitude = Some (Fin y), Longitude = Some (Fin x),
                             UserID = Some (Fin 211000000)\<rparr>\<rparr>"

text \<open>A sequence of publications, each with the oracle of its own writes.\<close>

definition publish_all :: "(write_oracle \<times> sse_msg) list \<Rightarrow> sse_hub \<Rightarrow> sse_hub" where
  "publish_all steps h = foldl (\<lambda>h' step. broadcast (fst step) (snd step) h') h steps"

text \<open>
  A run of the Blitzortung \<open>message\<close> handler over inbound frames, each with the oracle
  of its writes and its \<open>nanoid\<close>; the strikes the run decodes, and the publications it
  makes.
\<close>

definition blitz_run ::
  "(write_oracle \<times> string \<times> jsstring) list \<Rightarrow> lightning_server \<Rightarrow> lightning_server" where
  "blitz_run frames sv =
     foldl (\<lambda>sv' f. blitz_on_message (fst f) (fst (snd f)) (snd (snd f)) sv') sv frames"

definition live_steps :: "(write_oracle \<times> string \<times> jsstring) list \<Rightarrow> (write_oracle \<times> sse_msg) list" where
  "live_steps frames =
     concat (map (\<lambda>f. case decodeBlitzortung (snd (snd f)) of
                         None \<Rightarrow> []
                       | Some d \<Rightarrow> [(fst f, Strike \<lparr>lat = lat d, lon = lon d, time = time d,
                                                     strike_id = fst (snd f)\<rparr>)]) frames)"

definition live_strikes :: "(write_oracle \<times> string \<times> jsstring) list \<Rightarrow> LightningStrike list" where
  "live_strikes frames =
     concat (map (\<lambda>f. case decodeBlitzortung (snd (snd f)) of
                         None \<Rightarrow> []
                       | Some d \<Rightarrow> [\<lparr>lat = lat d, lon = lon d, time = time d,
                                      strike_id = fst (snd f)\<rparr>]) frames)"

section \<open>Frames of the upstream feed\<close>

text \<open>
  The frames the claims about the decoder speak of.  A number is written as an optional
  minus sign, an integer part \<open>ip\<close> and a fraction \<open>fp\<close> (no fraction when \<open>fp\<close>
  is empty); \<open>num_value\<close> is the rational it denotes, which a JSON parser rounds to
  binary64.  \<open>frame\<close> is the compact JSON text of a record of time, latitude and
  longitude.
\<close>

definition num_token :: "bool \<Rightarrow> jsstring \<Rightarrow> jsstring \<Rightarrow> jsstring" where
  "num_token neg ip fp = (if neg then [45] else []) @ ip @ (if fp = [] then [] else 46 # fp)"

definition num_value :: "bool \<Rightarrow> jsstring \<Rightarrow> jsstring \<Rightarrow> rat" where
  "num_value neg ip fp =
     (if neg then - (of_nat (dec ip) + of_nat (dec fp) / 10 ^ length fp)
      else of_nat (dec ip) + of_nat (dec fp) / 10 ^ length fp)"

definition frame :: "jsstring \<Rightarrow> jsstring \<Rightarrow> jsstring \<Rightarrow> jsstring" where
  \<open>frame t la lo =
     ascii ''{"time":'' @ t @ ascii '',"lat":'' @ la @ ascii '',"lon":'' @ lo @ ascii ''}''\<close>

text \<open>
  \<open>obfuscated s raw\<close>: the raw frame \<open>raw\<close> comes from the text \<open>s\<close> by writing
  some colons as U+0106, some commas as U+0119, and inserting code units above
  \<open>0x7F\<close> other than these two anywhere.
\<close>

inductive obfuscated :: "jsstring \<Rightarrow> jsstring \<Rightarrow> bool" where
  empty: "obfuscated [] []"
| keep: "obfuscated s r \<Longrightarrow> obfuscated (c # s) (c # r)"
| colon: "obfuscated s r \<Longrightarrow> obfuscated (58 # s) (0x106 # r)"
| comma: "obfuscated s r \<Longrightarrow> obfuscated (44 # s) (0x119 # r)"
| noise: "obfuscated s r \<Longrightarrow> 0x7F < n \<Longrightarrow> n \<noteq> 0x106 \<Longrightarrow> n \<noteq> 0x119 \<Longrightarrow> obfuscated s (n # r)"

text \<open>A finite number within the given bounds.\<close>

definition in_range :: "rat \<Rightarrow> rat \<Rightarrow> jsnum \<Rightarrow> bool" where
  "in_range lo hi v = (case v of Fin x \<Rightarrow> lo \<le> x \<and> x \<le> hi | _ \<Rightarrow> False)"

text \<open>
  The scenario of the specification: the frame
  \<open>{"time":1700000000000123000,"lat":35.1,"lon":139.6}\<close> with U+0108 and U+010A
  inside the digits of the time and U+0106 for the colon after \<open>"lat"\<close>.
\<close>

definition scenario_raw :: jsstring where
  \<open>scenario_raw = ascii ''{"time":17000'' @ [0x108] @ ascii ''00000'' @ [0x10A]
                   @ ascii ''000123000,"lat"'' @ [0x106] @ ascii ''35.1,"lon":139.6}''\<close>

text \<open>Further frames: a latitude in exponent notation, and a latitude that is a lone minus sign.\<close>

definition exponent_frame :: jsstring where
  \<open>exponent_frame = ascii ''{"time":1700000000000,"lat":1e-7,"lon":139.5}''\<close>

definition minus_frame :: jsstring where
  \<open>minus_frame = ascii ''{"time":1700000000000,"lat":-,"lon":139.5}''\<close>

definition plain_frame :: jsstring where
  \<open>plain_frame = ascii ''{"time":1700000000000,"lat":35.5,"lon":139.5}''\<close>

text \<open>A server whose store holds 50 strikes and that has one subscriber already.\<close>

definition fifty_strikes :: "LightningStrike list" where
  "fifty_strikes = map (\<lambda>i. strike_at (int i) ''h'') [0..<50]"

definition server50 :: lightning_server where
  "server50 =
     \<lparr>lightningStore = \<lparr>strikes = fifty_strikes, total = 50, maxSize = 500\<rparr>,
      hub = \<lparr>sseClients = [(''old'', 7)], written = (\<lambda>r. [])\<rparr>,
      heartbeats = [(''old'', 7)]\<rparr>"

section \<open>Facts about binary64 rounding\<close>

lemma round_half_even_near:
  "of_int m - 1 / 2 < x \<Longrightarrow> x < of_int m + 1 / 2 \<Longrightarrow> round_half_even x = m"
proof -
  assume a: "of_int m - 1 / 2 < x" and b: "x < of_int m + 1 / 2"
  show ?thesis
  proof (cases "of_int m \<le> x")
    case True
    then have f: "\<lfloor>x\<rfloor> = m" using b by (simp add: floor_eq_iff) 
    show ?thesis using b by (simp add: round_half_even_def Let_def f)
  next
    case False
    then have f: "\<lfloor>x\<rfloor> = m - 1" using a by (simp add: floor_eq_iff)
    show ?thesis using a False by (simp add: round_half_even_def Let_def f)
  qed
qed

lemma round_half_even_int: "round_half_even (of_int m) = m"
  by (simp add: round_half_even_def Let_def)

lemma round_half_even_ge_floor: "\<lfloor>x\<rfloor> \<le> round_half_even x"
  by (simp add: round_half_even_def Let_def)

lemma powi_unique:
  assumes "(2::rat) powi e \<le> a" "a < 2 powi (e + 1)" "2 powi e' \<le> a" "a < 2 powi (e' + 1)"
  shows "e = e'"
proof -
  have "(2::rat) powi e < 2 powi (e' + 1)" using assms by linarith
  then have 1: "e < e' + 1"
    using power_int_increasing [of "e' + 1" e "2::rat"] by (cases "e < e' + 1") auto
  have "(2::rat) powi e' < 2 powi (e + 1)" using assms by linarith
  then have 2: "e' < e + 1"
    using power_int_increasing [of "e + 1" e' "2::rat"] by (cases "e' < e + 1") auto
  from 1 2 show ?thesis by simp
qed

lemma ilog2_bounds:
  assumes "0 < a"
  shows "2 powi (ilog2 a) \<le> a \<and> a < 2 powi (ilog2 a + 1)"
proof -
  obtain n d where q: "quotient_of a = (n, d)" by (cases "quotient_of a")
  then have d: "0 < d" and a: "a = of_int n / of_int d"
    by (simp_all add: quotient_of_denom_pos quotient_of_div)
  from assms a d have n: "0 < n" by (simp add: zero_less_divide_iff)
  let ?k = "bitlen n - bitlen d"
  from bitlen_bounds [OF n] have n1: "2 ^ nat (bitlen n - 1) \<le> n" and n2: "n < 2 ^ nat (bitlen n)" by simp_all
  from bitlen_bounds [OF d] have d1: "2 ^ nat (bitlen d - 1) \<le> d" and d2: "d < 2 ^ nat (bitlen d)" by simp_all
  have bn: "1 \<le> bitlen n" using n by (simp add: bitlen_def floorlog_def)
  have bd: "1 \<le> bitlen d" using d by (simp add: bitlen_def floorlog_def)
  have rn1: "(2::rat) powi (bitlen n - 1) \<le> of_int n"
  proof -
    have "(of_int (2 ^ nat (bitlen n - 1)) :: rat) \<le> of_int n" using n1 by (simp only: of_int_le_iff)
    then show ?thesis using bn by (simp add: power_int_def)
  qed
  have rn2: "of_int n < (2::rat) powi (bitlen n)"
  proof -
    have "(of_int n :: rat) < of_int (2 ^ nat (bitlen n))" using n2 by (simp only: of_int_less_iff)
    then show ?thesis using bn by (simp add: power_int_def)
  qed
  have rd1: "(2::rat) powi (bitlen d - 1) \<le> of_int d"
  proof -
    have "(of_int (2 ^ nat (bitlen d - 1)) :: rat) \<le> of_int d" using d1 by (simp only: of_int_le_iff)
    then show ?thesis using bd by (simp add: power_int_def)
  qed
  have rd2: "of_int d < (2::rat) powi (bitlen d)"
  proof -
    have "(of_int d :: rat) < of_int (2 ^ nat (bitlen d))" using d2 by (simp only: of_int_less_iff)
    then show ?thesis using bd by (simp add: power_int_def)
  qed
  have dpos: "(0::rat) < of_int d" using d by simp
  have npos: "(0::rat) < of_int n" using n by simp
  have up: "a < 2 powi (?k + 1)"
  proof -
    have "a * of_int d = of_int n" using a dpos by simp
    also have "\<dots> < 2 powi (bitlen n)" by (rule rn2)
    also have "\<dots> = 2 powi (?k + 1) * 2 powi (bitlen d - 1)"
      by (simp flip: power_int_add)
    also have "\<dots> \<le> 2 powi (?k + 1) * of_int d"
      using rd1 by (intro mult_left_mono) simp_all
    finally show ?thesis using dpos by simp
  qed
  have lo: "2 powi (?k - 1) < a"
  proof -
    have "(2::rat) powi (?k - 1) * of_int d < 2 powi (?k - 1) * 2 powi (bitlen d)"
      using rd2 by (intro mult_strict_left_mono) simp_all
    also have "\<dots> = 2 powi (bitlen n - 1)"
      by (simp flip: power_int_add)
    also have "\<dots> \<le> of_int n" by (rule rn1)
    also have "\<dots> = a * of_int d" using a dpos by simp
    finally show ?thesis using dpos by simp
  qed
  show ?thesis
  proof (cases "2 powi ?k \<le> a")
    case True
    then show ?thesis using up q by (simp add: ilog2_def Let_def)
  next
    case False
    then show ?thesis using lo q by (simp add: ilog2_def Let_def)
  qed
qed

lemma ilog2_unique:
  assumes "0 < a" "2 powi e \<le> a" "a < 2 powi (e + 1)"
  shows "ilog2 a = e"
  using ilog2_bounds [OF assms(1)] assms(2,3) powi_unique by blast

text \<open>A certificate for a rounding to a normal number that is not a tie.\<close>

lemma round64_normal:
  assumes "0 < q" and "2 powi e \<le> q" and "q < 2 powi (e + 1)"
    and "- 1022 \<le> e" and "e \<le> 1022"
    and "of_int m - 1 / 2 < q / 2 powi (e - 52)" and "q / 2 powi (e - 52) < of_int m + 1 / 2"
  shows "round64 q = Fin (of_int m * 2 powi (e - 52))"
proof -
  have e: "ilog2 q = e" using assms(1,2,3) by (rule ilog2_unique)
  have p: "max (e - 52) (- 1074) = e - 52" using assms(4) by simp
  have r: "round_half_even (q / 2 powi (e - 52)) = m"
    using assms(6,7) by (rule round_half_even_near)
  have "q / 2 powi (e - 52) < 2 powi (e + 1) / 2 powi (e - 52)"
    using assms(3) by (intro divide_strict_right_mono) simp_all
  also have "\<dots> = 2 ^ 53" by (simp flip: power_int_diff)
  finally have "of_int m - 1 / 2 < (2 ^ 53 :: rat)" using assms(6) by linarith
  then have "(of_int m :: rat) < of_int (2 ^ 53 + 1)" by simp
  then have "m < 2 ^ 53 + 1" by (simp only: of_int_less_iff)
  then have "m \<le> 2 ^ 53" by simp
  then have "(of_int m :: rat) \<le> of_int (2 ^ 53)" by (simp only: of_int_le_iff)
  then have "(of_int m :: rat) * 2 powi (e - 52) \<le> 2 ^ 53 * 2 powi (e - 52)"
    by (intro mult_right_mono) simp_all
  also have "\<dots> = 2 powi (e + 1)"
    using power_int_add [of "2::rat" 53 "e - 52"] by (simp add: add.commute)
  also have "\<dots> \<le> 2 powi 1023"
    using assms(5) by (intro power_int_increasing) simp_all
  also have "\<dots> < 2 ^ 1024" by simp
  finally have v: "\<not> (2 ^ 1024 \<le> (of_int m :: rat) * 2 powi (e - 52))" by simp
  show ?thesis
    using assms(1) v by (simp add: round64_def Let_def e p r)
qed

lemma round64_nat_exact:
  assumes "n < 2 ^ 53"
  shows "round64 (of_nat n) = Fin (of_nat n)"
proof (cases "n = 0")
  case True
  then show ?thesis by (simp add: round64_def)
next
  case False
  let ?a = "of_nat n :: rat"
  let ?e = "ilog2 ?a"
  have pos: "0 < ?a" using False by simp
  from ilog2_bounds [OF pos] have lo: "2 powi ?e \<le> ?a" and hi: "?a < 2 powi (?e + 1)" by simp_all
  have "?a < of_nat (2 ^ 53)" using assms by (simp only: of_nat_less_iff)
  then have "(2::rat) powi ?e < 2 powi 53" using lo by simp
  then have e53: "?e < 53"
    using power_int_increasing [of 53 ?e "2::rat"] by (cases "?e < 53") auto
  have "(2::rat) powi 0 \<le> ?a" using False by simp
  then have "(2::rat) powi 0 < 2 powi (?e + 1)" using hi by linarith
  then have e0: "0 \<le> ?e"
    using power_int_increasing [of "?e + 1" 0 "2::rat"] by (cases "0 < ?e + 1") auto
  have p: "max (?e - 52) (- 1074) = ?e - 52" using e0 by simp
  have "2 powi (?e - 52) = 1 / (2::rat) ^ nat (52 - ?e)"
    using e53 by (simp add: power_int_def field_simps)
  then have d: "?a / 2 powi (?e - 52) = of_int (int n * 2 ^ nat (52 - ?e))"
    by simp
  have r: "round_half_even (?a / 2 powi (?e - 52)) = int n * 2 ^ nat (52 - ?e)"
    unfolding d by (rule round_half_even_int)
  have v: "of_int (int n * 2 ^ nat (52 - ?e)) * 2 powi (?e - 52) = ?a"
    using d by (metis nonzero_eq_divide_eq power_int_eq_0_iff zero_neq_numeral)
  have "?a < 2 ^ 53" using \<open>?a < of_nat (2 ^ 53)\<close> by simp
  also have "\<dots> \<le> (2 ^ 1024 :: rat)" by simp
  finally have big: "\<not> (2 ^ 1024 \<le> ?a)" by simp
  show ?thesis
    using pos big by (simp add: round64_def Let_def p r v del: of_int_mult of_int_power)
qed

lemma round64_large:
  assumes "2 ^ 53 \<le> q"
  shows "js_gt (round64 q) (Fin (10 ^ 15))"
proof -
  let ?e = "ilog2 q"
  have pos: "0 < q" using assms by (rule less_le_trans [rotated]) simp
  from ilog2_bounds [OF pos] have lo: "2 powi ?e \<le> q" and hi: "q < 2 powi (?e + 1)" by simp_all
  have "(2::rat) powi 53 < 2 powi (?e + 1)" using assms hi by simp
  then have e: "53 \<le> ?e"
    using power_int_increasing [of "?e + 1" 53 "2::rat"] by (cases "53 < ?e + 1") auto
  have p: "max (?e - 52) (- 1074) = ?e - 52" using e by simp
  let ?x = "q / 2 powi (?e - 52)"
  have "2 powi ?e / 2 powi (?e - 52) \<le> ?x"
    using lo by (intro divide_right_mono) simp_all
  then have "(2 ^ 52 :: rat) \<le> ?x" by (simp flip: power_int_diff)
  then have "(of_int (2 ^ 52) :: rat) \<le> ?x" by simp
  then have "2 ^ 52 \<le> \<lfloor>?x\<rfloor>" by (simp only: le_floor_iff)
  then have m: "2 ^ 52 \<le> round_half_even ?x"
    using round_half_even_ge_floor [of ?x] by linarith
  have "(2::rat) powi 1 \<le> 2 powi (?e - 52)"
    using e by (intro power_int_increasing) simp_all
  then have two: "(2::rat) \<le> 2 powi (?e - 52)" by simp
  have "(2 ^ 52 :: rat) * 2 \<le> of_int (round_half_even ?x) * 2 powi (?e - 52)"
  proof (rule mult_mono)
    have "(of_int (2 ^ 52) :: rat) \<le> of_int (round_half_even ?x)" using m by (simp only: of_int_le_iff)
    then show "(2 ^ 52 :: rat) \<le> of_int (round_half_even ?x)" by simp
  qed (use two m in simp_all)
  then have v: "(10 ^ 15 :: rat) < of_int (round_half_even ?x) * 2 powi (?e - 52)" by simp
  show ?thesis
    using pos v by (simp add: round64_def Let_def p js_gt_def)
qed

section \<open>Properties of the lightning store\<close>

lemma js_slice_neg:
  "0 < n \<Longrightarrow> js_slice (- int n) xs = drop (length xs - n) xs"
  by (simp add: js_slice_def Let_def max_def nat_diff_distrib') 

lemma add_strikes:
  "0 < maxSize st \<Longrightarrow>
   strikes (add x st) = drop (length (strikes st) + 1 - maxSize st) (strikes st @ [x])"
  by (simp add: add_def Let_def js_slice_neg)

lemma add_total: "total (add x st) = total st + 1"
  by (simp add: add_def Let_def)

lemma add_maxSize: "maxSize (add x st) = maxSize st"
  by (simp add: add_def Let_def)

lemma store_inv_add:
  assumes "0 < C" and "store_inv C h st"
  shows "store_inv C (h @ [x]) (add x st)"
proof -
  from assms(2) have m: "maxSize st = C" and t: "total st = length h"
    and s: "strikes st = drop (length h - min (length h) C) h"
    by (simp_all add: store_inv_def)
  have len: "length (strikes st) = min (length h) C"
    by (simp add: s)
  have "strikes (add x st) = drop (length (strikes st) + 1 - C) (strikes st @ [x])"
    using add_strikes [of st x] assms(1) m by simp
  also have "\<dots> = drop (length (h @ [x]) - min (length (h @ [x])) C) (h @ [x])"
  proof (cases "length h < C")
    case True
    then show ?thesis by (simp add: s len min_def)
  next
    case False
    then have "length (strikes st) + 1 - C = 1" using len by simp
    with False show ?thesis
      by (simp add: s min_def Suc_diff_le)
  qed
  finally have st': "strikes (add x st) = drop (length (h @ [x]) - min (length (h @ [x])) C) (h @ [x])" .
  have "length (strikes (add x st)) \<le> C"
    by (simp add: st')
  then show ?thesis
    using st' m t by (simp add: store_inv_def add_total add_maxSize)
qed

lemma store_inv_foldl:
  "0 < C \<Longrightarrow> store_inv C h st \<Longrightarrow> store_inv C (h @ xs) (foldl (\<lambda>s x. add x s) st xs)"
proof (induction xs arbitrary: h st)
  case Nil
  then show ?case by simp
next
  case (Cons x xs)
  from Cons.prems have "store_inv C (h @ [x]) (add x st)"
    by (rule store_inv_add)
  from Cons.IH [OF Cons.prems(1) this] show ?case by simp
qed

lemma store_inv_capacity: "store_inv C [] (store_of_capacity C)"
  by (simp add: store_inv_def store_of_capacity_def new_LightningStore_def)

lemma getRecent_pos:
  "0 < n \<Longrightarrow> getRecent (int n) st = drop (length (strikes st) - n) (strikes st)"
  by (simp add: getRecent_def js_slice_neg)

lemma store_step_inv:
  "0 < C \<Longrightarrow> store_inv C h st \<Longrightarrow> store_inv C (h @ inserted [op]) (store_step st op)"
  by (cases op) (simp_all add: store_inv_add)

lemma inserted_append: "inserted (ops @ ops') = inserted ops @ inserted ops'"
  by (induction ops rule: inserted.induct) simp_all

lemma store_inv_run:
  "0 < C \<Longrightarrow> store_inv C h st \<Longrightarrow> store_inv C (h @ inserted ops) (foldl store_step st ops)"
proof (induction ops arbitrary: h st)
  case Nil
  then show ?case by simp
next
  case (Cons op ops)
  from Cons.prems have "store_inv C (h @ inserted [op]) (store_step st op)"
    by (rule store_step_inv)
  from Cons.IH [OF Cons.prems(1) this] show ?case
    using inserted_append [of "[op]" ops] by simp
qed

text \<open>
  Claim C3.  A store of capacity \<open>C\<close> (positive) that received \<open>C + k\<close> strikes,
  \<open>k > 0\<close>, through \<open>add\<close> holds exactly the last \<open>C\<close> of them in insertion order,
  \<open>getRecent(C)\<close> returns them, and \<open>getTotal()\<close> is \<open>C + k\<close>.
\<close>

theorem getRecent_after_overflow:
  assumes "0 < C" and "0 < k" and "length xs = C + k"
  shows "getRecent (int C) (foldl (\<lambda>s x. add x s) (store_of_capacity C) xs) = drop k xs
       \<and> strikes (foldl (\<lambda>s x. add x s) (store_of_capacity C) xs) = drop k xs
       \<and> getTotal (foldl (\<lambda>s x. add x s) (store_of_capacity C) xs) = C + k"
proof -
  let ?st = "foldl (\<lambda>s x. add x s) (store_of_capacity C) xs"
  have "store_inv C ([] @ xs) ?st"
    using assms(1) store_inv_capacity by (rule store_inv_foldl)
  then have t: "total ?st = length xs"
    and s: "strikes ?st = drop (length xs - min (length xs) C) xs"
    by (simp_all add: store_inv_def)
  from s assms(3) have s': "strikes ?st = drop k xs"
    by (simp add: min_def)
  have "getRecent (int C) ?st = drop (length (strikes ?st) - C) (strikes ?st)"
    using assms(1) by (rule getRecent_pos)
  also have "\<dots> = drop k xs"
    using assms(3) by (simp add: s')
  finally show ?thesis
    using s' t assms(3) by (simp add: getTotal_def)
qed

theorem getRecent_after_overflow_witness:
  "getRecent 3 (foldl (\<lambda>s x. add x s) (store_of_capacity 3)
       [strike_at 0 ''A'', strike_at 1 ''B'', strike_at 2 ''C'', strike_at 3 ''D''])
     = [strike_at 1 ''B'', strike_at 2 ''C'', strike_at 3 ''D'']
   \<and> strikes (foldl (\<lambda>s x. add x s) (store_of_capacity 3)
       [strike_at 0 ''A'', strike_at 1 ''B'', strike_at 2 ''C'', strike_at 3 ''D''])
     = [strike_at 1 ''B'', strike_at 2 ''C'', strike_at 3 ''D'']
   \<and> getTotal (foldl (\<lambda>s x. add x s) (store_of_capacity 3)
       [strike_at 0 ''A'', strike_at 1 ''B'', strike_at 2 ''C'', strike_at 3 ''D'']) = 4"
  using getRecent_after_overflow [of 3 1
      "[strike_at 0 ''A'', strike_at 1 ''B'', strike_at 2 ''C'', strike_at 3 ''D'']"]
  by simp

text \<open>
  Claim C4.  Whatever operations the store \<open>lightningStore\<close> (capacity 500) has executed,
  its buffer is at most 500 long and holds exactly the last \<open>min total 500\<close> strikes
  inserted, in insertion order; the next \<open>add\<close> appends, and at capacity it drops the
  oldest strike first.
\<close>

theorem lightningStore_invariant:
  "length (strikes (foldl store_step new_LightningStore ops)) \<le> 500
   \<and> total (foldl store_step new_LightningStore ops) = length (inserted ops)
   \<and> strikes (foldl store_step new_LightningStore ops)
       = drop (length (inserted ops) - min (total (foldl store_step new_LightningStore ops)) 500)
           (inserted ops)
   \<and> strikes (add x (foldl store_step new_LightningStore ops))
       = (if length (strikes (foldl store_step new_LightningStore ops)) < 500
          then strikes (foldl store_step new_LightningStore ops) @ [x]
          else tl (strikes (foldl store_step new_LightningStore ops)) @ [x])"
proof -
  let ?st = "foldl store_step new_LightningStore ops"
  have "store_inv 500 [] new_LightningStore"
    by (simp add: store_inv_def new_LightningStore_def)
  then have "store_inv 500 ([] @ inserted ops) ?st"
    by (intro store_inv_run) simp_all
  then have inv: "store_inv 500 (inserted ops) ?st" by simp
  then have m: "maxSize ?st = 500" and l: "length (strikes ?st) \<le> 500"
    and t: "total ?st = length (inserted ops)"
    and s: "strikes ?st = drop (length (inserted ops) - min (length (inserted ops)) 500) (inserted ops)"
    by (simp_all add: store_inv_def)
  have a: "strikes (add x ?st) = drop (length (strikes ?st) + 1 - 500) (strikes ?st @ [x])"
    using add_strikes [of ?st x] m by simp
  have "strikes (add x ?st)
       = (if length (strikes ?st) < 500 then strikes ?st @ [x] else tl (strikes ?st) @ [x])"
  proof (cases "length (strikes ?st) < 500")
    case True
    then show ?thesis using a by simp
  next
    case False
    with l have "length (strikes ?st) = 500" by simp
    then show ?thesis using a by (simp add: drop_Suc)
  qed
  with l t s show ?thesis by simp
qed

text \<open>
  Claim C5.  \<open>getRecent(n)\<close> is to return the last \<open>n\<close> strikes.  It does for
  \<open>n \<ge> 1\<close> (lemma \<open>getRecent_pos\<close>), but \<open>getRecent(0)\<close> evaluates \<open>slice(-0)\<close> and
  returns the whole buffer instead of no strike.
\<close>

theorem getRecent_zero_returns_all:
  "getRecent 0 (add (strike_at 1 ''B'') (add (strike_at 0 ''A'') new_LightningStore))
     = [strike_at 0 ''A'', strike_at 1 ''B'']"
  by (simp add: getRecent_def js_slice_def add_def new_LightningStore_def Let_def)

section \<open>Properties of the decoder\<close>

lemma obfuscated_clean:
  "obfuscated s r \<Longrightarrow> \<forall>c \<in> set s. c \<le> 0x7F \<Longrightarrow> strip_noise (replace_structural r) = s"
  by (induction rule: obfuscated.induct) (auto simp: strip_noise_def replace_structural_def)

lemma regex_match_hit: "match_at key cls s = Some g \<Longrightarrow> regex_match key cls s = Some g"
  by (cases s) simp_all

lemma match_at_miss:
  "c \<noteq> 34 \<Longrightarrow> c \<noteq> k \<Longrightarrow> match_at (k # ks) cls (c # s) = None"
  by (simp add: match_at_def strip_prefix_def)

lemma regex_match_skip_run:
  "\<forall>c \<in> set p. c \<noteq> 34 \<and> c \<noteq> k \<Longrightarrow> regex_match (k # ks) cls (p @ s) = regex_match (k # ks) cls s"
  by (induction p) (simp_all add: match_at_miss)

lemma match_at_key:
  assumes "g \<noteq> []" and "\<forall>c \<in> set g. cls c" and "\<not> cls e" and "\<forall>c \<in> set key. c \<noteq> 34"
  shows "match_at key cls (34 # key @ 34 # 58 # g @ e # rest) = Some g"
proof -
  have "takeWhile cls (g @ e # rest) = g"
    using assms(2,3) by (simp add: takeWhile_tail)
  then show ?thesis
    using assms(1) by (simp add: match_at_def strip_prefix_def)
qed

lemma digits_ascii: "\<forall>c \<in> set t. is_digit c \<Longrightarrow> \<forall>c \<in> set t. c \<le> 0x7F"
  by (auto simp: is_digit_def)

lemma frame_time:
  assumes "t \<noteq> []" and "\<forall>c \<in> set t. is_digit c"
  shows "regex_match (ascii ''time'') is_digit (frame t la lo) = Some t"
proof -
  have f: \<open>frame t la lo = 123 # (34 # ascii ''time'' @ 34 # 58 # t @ 44 # (ascii ''"lat":'' @ la @ ascii '',"lon":'' @ lo @ ascii ''}''))\<close>
    by (simp add: frame_def ascii_def)
  have m: \<open>match_at (ascii ''time'') is_digit (34 # ascii ''time'' @ 34 # 58 # t @ 44 # (ascii ''"lat":'' @ la @ ascii '',"lon":'' @ lo @ ascii ''}'')) = Some t\<close>
    using assms by (intro match_at_key) (simp_all add: is_digit_def ascii_def)
  have "match_at (ascii ''time'') is_digit (frame t la lo) = None"
    unfolding f by (simp add: ascii_def match_at_miss)
  then show ?thesis
    unfolding f using regex_match_hit [OF m] by simp
qed


lemma num_token_chars:
  assumes "\<forall>c \<in> set ip. is_digit c" and "\<forall>c \<in> set fp. is_digit c"
  shows "\<forall>c \<in> set (num_token neg ip fp). is_numch c"
  using assms by (auto simp: num_token_def is_numch_def)

lemma num_token_nonempty: "ip \<noteq> [] \<Longrightarrow> num_token neg ip fp \<noteq> []"
  by (simp add: num_token_def)

lemma numch_plain: "is_numch c \<Longrightarrow> c \<noteq> 34 \<and> c \<noteq> 108 \<and> c \<le> 0x7F"
  by (auto simp: is_numch_def is_digit_def)

lemma digit_plain: "is_digit c \<Longrightarrow> c \<noteq> 34 \<and> c \<noteq> 108 \<and> c \<le> 0x7F"
  by (auto simp: is_digit_def)

lemma frame_lat:
  assumes "\<forall>c \<in> set t. is_digit c" and "la \<noteq> []" and "\<forall>c \<in> set la. is_numch c"
  shows "regex_match (ascii ''lat'') is_numch (frame t la lo) = Some la"
proof -
  let ?tail = \<open>34 # ascii ''lat'' @ 34 # 58 # la @ 44 # (ascii ''"lon":'' @ lo @ ascii ''}'')\<close>
  have f: \<open>frame t la lo = ascii ''{"time":'' @ t @ 44 # ?tail\<close>
    by (simp add: frame_def ascii_def)
  have m: "match_at (ascii ''lat'') is_numch ?tail = Some la"
    using assms(2,3) by (intro match_at_key) (simp_all add: is_numch_def is_digit_def ascii_def)
  have 1: \<open>regex_match (ascii ''lat'') is_numch (ascii ''{"time":'' @ t @ 44 # ?tail)
          = regex_match (ascii ''lat'') is_numch (t @ 44 # ?tail)\<close>
    by (simp add: ascii_def match_at_def strip_prefix_def)
  have 2: "regex_match (ascii ''lat'') is_numch (t @ 44 # ?tail)
          = regex_match (ascii ''lat'') is_numch (44 # ?tail)"
    using assms(1) regex_match_skip_run [of t 108 "[97, 116]" is_numch "44 # ?tail"]
    by (simp add: ascii_def digit_plain)
  have 3: "regex_match (ascii ''lat'') is_numch (44 # ?tail) = Some la"
    using regex_match_hit [OF m] by (simp add: ascii_def match_at_miss)
  show ?thesis
    unfolding f using 1 2 3 by simp
qed

lemma frame_lon:
  assumes "\<forall>c \<in> set t. is_digit c" and "\<forall>c \<in> set la. is_numch c"
    and "lo \<noteq> []" and "\<forall>c \<in> set lo. is_numch c"
  shows "regex_match (ascii ''lon'') is_numch (frame t la lo) = Some lo"
proof -
  let ?tail = "34 # ascii ''lon'' @ 34 # 58 # lo @ 125 # []"
  have f: \<open>frame t la lo = ascii ''{"time":'' @ t @ ascii '',"lat":'' @ la @ 44 # ?tail\<close>
    by (simp add: frame_def ascii_def)
  have m: "match_at (ascii ''lon'') is_numch ?tail = Some lo"
    using assms(3,4) by (intro match_at_key) (simp_all add: is_numch_def is_digit_def ascii_def)
  have 1: \<open>regex_match (ascii ''lon'') is_numch (ascii ''{"time":'' @ t @ ascii '',"lat":'' @ la @ 44 # ?tail)
          = regex_match (ascii ''lon'') is_numch (t @ ascii '',"lat":'' @ la @ 44 # ?tail)\<close>
    by (simp add: ascii_def match_at_def strip_prefix_def)
  have 2: \<open>regex_match (ascii ''lon'') is_numch (t @ ascii '',"lat":'' @ la @ 44 # ?tail)
          = regex_match (ascii ''lon'') is_numch (ascii '',"lat":'' @ la @ 44 # ?tail)\<close>
    using assms(1) regex_match_skip_run [of t 108 "[111, 110]" is_numch]
    by (simp add: ascii_def digit_plain)
  have 3: \<open>regex_match (ascii ''lon'') is_numch (ascii '',"lat":'' @ la @ 44 # ?tail)
          = regex_match (ascii ''lon'') is_numch (la @ 44 # ?tail)\<close>
    by (simp add: ascii_def match_at_def strip_prefix_def)
  have 4: "regex_match (ascii ''lon'') is_numch (la @ 44 # ?tail)
          = regex_match (ascii ''lon'') is_numch (44 # ?tail)"
    using assms(2) regex_match_skip_run [of la 108 "[111, 110]" is_numch "44 # ?tail"]
    by (simp add: ascii_def numch_plain)
  have 5: "regex_match (ascii ''lon'') is_numch (44 # ?tail) = Some lo"
    using regex_match_hit [OF m] by (simp add: ascii_def match_at_miss)
  show ?thesis
    unfolding f using 1 2 3 4 5 by simp
qed

lemma frame_ascii:
  assumes "\<forall>c \<in> set t. is_digit c" and "\<forall>c \<in> set la. is_numch c" and "\<forall>c \<in> set lo. is_numch c"
  shows "\<forall>c \<in> set (frame t la lo). c \<le> 0x7F"
  using assms by (auto simp: frame_def ascii_def dest: digit_plain numch_plain)

lemma parseInt_digits:
  assumes "t \<noteq> []" and "\<forall>c \<in> set t. is_digit c"
  shows "parseInt t = round64 (of_nat (dec t))"
proof -
  have tw: "takeWhile is_digit t = t" using assms(2) by simp
  show ?thesis unfolding parseInt_def Let_def tw using assms(1) by simp
qed

lemma parseFloat_token:
  assumes "ip \<noteq> []" and "\<forall>c \<in> set ip. is_digit c" and "\<forall>c \<in> set fp. is_digit c"
  shows "parseFloat (num_token neg ip fp) = round64 (num_value neg ip fp)"
proof -
  let ?rest = "if fp = [] then [] else 46 # fp"
  have nd: "\<not> is_digit 46" by (simp add: is_digit_def)
  have tw: "takeWhile is_digit (ip @ ?rest) = ip"
    using assms(2) nd by (simp add: takeWhile_tail)
  have dw: "dropWhile is_digit (ip @ ?rest) = ?rest"
    using assms(2) nd by (simp add: dropWhile_append3)
  have fpw: "takeWhile is_digit fp = fp"
    using assms(3) by simp
  obtain d ds where ip: "ip = d # ds" using assms(1) by (cases ip) auto
  have d45: "d \<noteq> 45" using assms(2) by (auto simp: ip is_digit_def)
  show ?thesis
  proof (cases neg)
    case True
    have "num_token True ip fp = 45 # (ip @ ?rest)" by (simp add: num_token_def)
    then have "parseFloat (num_token True ip fp) = round64 (num_value True ip fp)"
      using assms(1) by (simp add: parseFloat_def Let_def tw dw fpw num_value_def)
    with True show ?thesis by simp
  next
    case False
    have t: "num_token False ip fp = ip @ ?rest" by (simp add: num_token_def)
    have h: "hd (ip @ ?rest) \<noteq> 45" using d45 by (simp add: ip)
    have "parseFloat (num_token False ip fp) = round64 (num_value False ip fp)"
      using assms(1) h by (simp add: parseFloat_def Let_def t tw dw fpw num_value_def)
    with False show ?thesis by simp
  qed
qed

lemma time_normalised:
  "(if js_gt (round64 (of_nat n)) (Fin (10 ^ 15))
    then Math_floor (js_div_pos (round64 (of_nat n)) (10 ^ 6)) else round64 (of_nat n))
   = (if n \<le> 10 ^ 15 then Fin (of_nat n)
      else Math_floor (js_div_pos (round64 (of_nat n)) (10 ^ 6)))"
proof (cases "n < 2 ^ 53")
  case True
  have "js_gt (Fin (of_nat n)) (Fin (10 ^ 15)) = (10 ^ 15 < n)"
  proof -
    have "((10 ^ 15 :: rat) < of_nat n) = ((of_nat (10 ^ 15) :: rat) < of_nat n)" by simp
    also have "\<dots> = (10 ^ 15 < n)" by (simp only: of_nat_less_iff)
    finally show ?thesis by (simp add: js_gt_def)
  qed
  then show ?thesis
    using round64_nat_exact [OF True] by (auto simp: not_less)
next
  case False
  then have "(of_nat (2 ^ 53) :: rat) \<le> of_nat n" by (simp only: of_nat_le_iff)
  then have "(2 ^ 53 :: rat) \<le> of_nat n" by simp
  then have "js_gt (round64 (of_nat n)) (Fin (10 ^ 15))" by (rule round64_large)
  moreover have "\<not> n \<le> 10 ^ 15" using False by simp
  ultimately show ?thesis by simp
qed

lemma in_range_js:
  "in_range lo hi v \<Longrightarrow> \<not> js_lt v (Fin lo) \<and> \<not> js_gt v (Fin hi)"
  by (cases v) (simp_all add: in_range_def js_gt_def)

lemma decode_frame:
  assumes "t \<noteq> []" and "\<forall>c \<in> set t. is_digit c"
    and "ip1 \<noteq> []" and "\<forall>c \<in> set ip1. is_digit c" and "\<forall>c \<in> set fp1. is_digit c"
    and "ip2 \<noteq> []" and "\<forall>c \<in> set ip2. is_digit c" and "\<forall>c \<in> set fp2. is_digit c"
    and "in_range (- 90) 90 (round64 (num_value n1 ip1 fp1))"
    and "in_range (- 180) 180 (round64 (num_value n2 ip2 fp2))"
    and "obfuscated (frame t (num_token n1 ip1 fp1) (num_token n2 ip2 fp2)) raw"
  shows "decodeBlitzortung raw
     = Some \<lparr>lat = round64 (num_value n1 ip1 fp1), lon = round64 (num_value n2 ip2 fp2),
             time = (if dec t \<le> 10 ^ 15 then Fin (of_nat (dec t))
                     else Math_floor (js_div_pos (round64 (of_nat (dec t))) (10 ^ 6)))\<rparr>"
proof -
  let ?la = "num_token n1 ip1 fp1" and ?lo = "num_token n2 ip2 fp2"
  have cla: "\<forall>c \<in> set ?la. is_numch c" using assms(4,5) by (rule num_token_chars)
  have clo: "\<forall>c \<in> set ?lo. is_numch c" using assms(7,8) by (rule num_token_chars)
  have nla: "?la \<noteq> []" using assms(3) by (rule num_token_nonempty)
  have nlo: "?lo \<noteq> []" using assms(6) by (rule num_token_nonempty)
  have clean: "strip_noise (replace_structural raw) = frame t ?la ?lo"
    using assms(11) frame_ascii [OF assms(2) cla clo] by (rule obfuscated_clean)
  have tm: "regex_match (ascii ''time'') is_digit (frame t ?la ?lo) = Some t"
    using assms(1,2) by (rule frame_time)
  have lam: "regex_match (ascii ''lat'') is_numch (frame t ?la ?lo) = Some ?la"
    using assms(2) nla cla by (rule frame_lat)
  have lom: "regex_match (ascii ''lon'') is_numch (frame t ?la ?lo) = Some ?lo"
    using assms(2) cla nlo clo by (rule frame_lon)
  have pt: "parseInt t = round64 (of_nat (dec t))"
    using assms(1,2) by (rule parseInt_digits)
  have pla: "parseFloat ?la = round64 (num_value n1 ip1 fp1)"
    using assms(3,4,5) by (rule parseFloat_token)
  have plo: "parseFloat ?lo = round64 (num_value n2 ip2 fp2)"
    using assms(6,7,8) by (rule parseFloat_token)
  from in_range_js [OF assms(9)] in_range_js [OF assms(10)]
  show ?thesis
    unfolding time_normalised [symmetric]
    by (simp add: decodeBlitzortung_def Let_def clean tm lam lom pt pla plo)
qed


text \<open>Some binary64 values.\<close>

lemma round64_35_1: "round64 (351 / 10) = Fin (4939885841272013 / 2 ^ 47)"
  using round64_normal [of "351 / 10" 5 4939885841272013] by simp

lemma round64_139_6: "round64 (1396 / 10) = Fin (4911738343600947 / 2 ^ 45)"
  using round64_normal [of "1396 / 10" 7 4911738343600947] by simp

lemma round64_35_5: "round64 (71 / 2) = Fin (71 / 2)"
  using round64_normal [of "71 / 2" 5 4996180836614144] by simp

lemma round64_139_5: "round64 (279 / 2) = Fin (279 / 2)"
  using round64_normal [of "279 / 2" 7 4908219906392064] by simp

lemma round64_1e_7: "round64 (1 / 10 ^ 7) = Fin (7555786372591432 / 2 ^ 76)"
  using round64_normal [of "1 / 10 ^ 7" "- 24" 7555786372591432] by simp

lemma round64_scenario_time: "round64 1700000000000123000 = Fin 1700000000000122880"
  using round64_normal [of 1700000000000123000 60 6640625000000480] by simp

lemma round64_scenario_quotient:
  "round64 (1700000000000122880 / 10 ^ 6) = Fin (6963200000000503 / 2 ^ 12)"
  using round64_normal [of "1700000000000122880 / 10 ^ 6" 40 6963200000000503] by simp

text \<open>
  Claim C1, as amended.  A frame \<open>{"time":T,"lat":LA,"lon":LO}\<close> in which \<open>T\<close> is a
  run of digits and \<open>LA\<close>, \<open>LO\<close> are decimal numbers without exponent whose binary64
  values are in range, obfuscated in any way, decodes to those binary64 values of
  \<open>LA\<close> and \<open>LO\<close>; the time is \<open>T\<close> itself up to \<open>10^15\<close> and
  \<open>Math.floor(rawTime / 1e6)\<close> in binary64 arithmetic above.
\<close>

theorem decodeBlitzortung_recovers:
  assumes "t \<noteq> []" and "\<forall>c \<in> set t. is_digit c"
    and "ip1 \<noteq> []" and "\<forall>c \<in> set ip1. is_digit c" and "\<forall>c \<in> set fp1. is_digit c"
    and "ip2 \<noteq> []" and "\<forall>c \<in> set ip2. is_digit c" and "\<forall>c \<in> set fp2. is_digit c"
    and "in_range (- 90) 90 (round64 (num_value n1 ip1 fp1))"
    and "in_range (- 180) 180 (round64 (num_value n2 ip2 fp2))"
    and "obfuscated (frame t (num_token n1 ip1 fp1) (num_token n2 ip2 fp2)) raw"
  shows "decodeBlitzortung raw
     = Some \<lparr>lat = round64 (num_value n1 ip1 fp1), lon = round64 (num_value n2 ip2 fp2),
             time = (if dec t \<le> 10 ^ 15 then Fin (of_nat (dec t))
                     else Math_floor (js_div_pos (round64 (of_nat (dec t))) (10 ^ 6)))\<rparr>"
  using assms by (rule decode_frame)

text \<open>The scenario: latitude 35.1, longitude 139.6, time 1700000000000.\<close>

lemma scenario_obfuscated:
  "obfuscated (frame (ascii ''1700000000000123000'') (num_token False (ascii ''35'') (ascii ''1''))
                 (num_token False (ascii ''139'') (ascii ''6''))) scenario_raw"
  unfolding frame_def num_token_def scenario_raw_def ascii_def
  by simp (intro obfuscated.intros; simp)

theorem decodeBlitzortung_recovers_witness:
  "decodeBlitzortung scenario_raw
     = Some \<lparr>lat = round64 (351 / 10), lon = round64 (1396 / 10), time = Fin 1700000000000\<rparr>"
proof -
  have t: "dec (ascii ''1700000000000123000'') = 1700000000000123000"
    by (simp add: dec_def ascii_def)
  have la: "num_value False (ascii ''35'') (ascii ''1'') = 351 / 10"
    by (simp add: num_value_def dec_def ascii_def)
  have lo: "num_value False (ascii ''139'') (ascii ''6'') = 1396 / 10"
    by (simp add: num_value_def dec_def ascii_def)
  have tm: "Math_floor (js_div_pos (round64 1700000000000123000) (10 ^ 6)) = Fin 1700000000000"
  proof -
    have "\<lfloor>6963200000000503 / 2 ^ 12 :: rat\<rfloor> = 1700000000000"
      by (rule floor_unique) simp_all
    then show ?thesis
      by (simp only: round64_scenario_time js_div_pos.simps round64_scenario_quotient
            Math_floor.simps of_int_numeral)
  qed
  have "decodeBlitzortung scenario_raw
     = Some \<lparr>lat = round64 (num_value False (ascii ''35'') (ascii ''1'')),
             lon = round64 (num_value False (ascii ''139'') (ascii ''6'')),
             time = (if dec (ascii ''1700000000000123000'') \<le> 10 ^ 15
                     then Fin (of_nat (dec (ascii ''1700000000000123000'')))
                     else Math_floor (js_div_pos
                            (round64 (of_nat (dec (ascii ''1700000000000123000'')))) (10 ^ 6)))\<rparr>"
  proof (rule decodeBlitzortung_recovers)
    show "in_range (- 90) 90 (round64 (num_value False (ascii ''35'') (ascii ''1'')))"
      unfolding la round64_35_1 by (simp add: in_range_def)
    show "in_range (- 180) 180 (round64 (num_value False (ascii ''139'') (ascii ''6'')))"
      unfolding lo round64_139_6 by (simp add: in_range_def)
    show "obfuscated (frame (ascii ''1700000000000123000'')
            (num_token False (ascii ''35'') (ascii ''1''))
            (num_token False (ascii ''139'') (ascii ''6''))) scenario_raw"
      by (rule scenario_obfuscated)
  qed (simp_all add: ascii_def is_digit_def)
  then show ?thesis
    unfolding t la lo using tm by simp
qed


lemma decode_exponent_frame:
  "decodeBlitzortung exponent_frame
     = Some \<lparr>lat = Fin 1, lon = Fin (279 / 2), time = Fin 1700000000000\<rparr>"
  using round64_nat_exact [of 1] round64_nat_exact [of 1700000000000] round64_139_5
  by (simp add: exponent_frame_def decodeBlitzortung_def ascii_def strip_noise_def
      replace_structural_def match_at_def strip_prefix_def is_digit_def is_numch_def
      parseInt_def parseFloat_def dec_def js_gt_def Let_def)

text \<open>
  Claim C1 as stated fails for a latitude that JSON writes with an exponent: the frame of
  the record with latitude \<open>1e-7\<close> decodes to latitude 1, which is not the binary64
  value of \<open>1e-7\<close>.
\<close>

theorem decodeBlitzortung_exponent_counterexample:
  "decodeBlitzortung exponent_frame
     = Some \<lparr>lat = Fin 1, lon = Fin (279 / 2), time = Fin 1700000000000\<rparr>
   \<and> round64 (1 / 10 ^ 7) \<noteq> Fin 1"
  using decode_exponent_frame round64_1e_7 by simp

text \<open>
  Binary64 division is not exact division: for this 19-digit time stamp the code yields
  one millisecond more than the truncated quotient.
\<close>

lemma time_rounding_example:
  "Math_floor (js_div_pos (round64 1700000000000999999) (10 ^ 6)) = Fin 1700000000001
   \<and> (1700000000000999999 :: nat) div 10 ^ 6 = 1700000000000"
proof -
  have a: "round64 1700000000000999999 = Fin 1700000000000999936"
    using round64_normal [of 1700000000000999999 60 6640625000003906] by simp
  have b: "round64 (1700000000000999936 / 10 ^ 6) = Fin 1700000000001"
    using round64_normal [of "1700000000000999936 / 10 ^ 6" 40 6963200000004096] by simp
  have "Math_floor (js_div_pos (round64 1700000000000999999) (10 ^ 6)) = Fin 1700000000001"
    by (simp only: a js_div_pos.simps b Math_floor.simps floor_numeral of_int_numeral)
  then show ?thesis by simp
qed

text \<open>What the range check lets through: a number in range, or \<open>NaN\<close>.\<close>

lemma range_check:
  "\<not> js_lt v (Fin lo) \<Longrightarrow> \<not> js_gt v (Fin hi) \<Longrightarrow> v = NaN \<or> in_range lo hi v"
  by (cases v) (simp_all add: in_range_def js_gt_def)

lemma decodeBlitzortung_range:
  assumes "decodeBlitzortung raw = Some ev"
  shows "(lat ev = NaN \<or> in_range (- 90) 90 (lat ev))
       \<and> (lon ev = NaN \<or> in_range (- 180) 180 (lon ev))"
proof -
  let ?d = "strip_noise (replace_structural raw)"
  from assms obtain tm la lo where
      la: "regex_match (ascii ''lat'') is_numch ?d = Some la"
    and lo: "regex_match (ascii ''lon'') is_numch ?d = Some lo"
    and chk: "\<not> (js_lt (parseFloat la) (Fin (- 90)) \<or> js_gt (parseFloat la) (Fin 90)
               \<or> js_lt (parseFloat lo) (Fin (- 180)) \<or> js_gt (parseFloat lo) (Fin 180))"
    and ev: "lat ev = parseFloat la" "lon ev = parseFloat lo"
    by (auto simp: decodeBlitzortung_def Let_def split: option.splits if_splits)
  from chk show ?thesis
    unfolding ev by (auto dest: range_check)
qed

lemma decode_minus_frame:
  "decodeBlitzortung minus_frame
     = Some \<lparr>lat = NaN, lon = Fin (279 / 2), time = Fin 1700000000000\<rparr>"
  using round64_nat_exact [of 1700000000000] round64_139_5
  by (simp add: minus_frame_def decodeBlitzortung_def ascii_def strip_noise_def
      replace_structural_def match_at_def strip_prefix_def is_digit_def is_numch_def
      parseInt_def parseFloat_def dec_def js_gt_def Let_def)

text \<open>
  Claim C2.  The range check compares with \<open><\<close> and \<open>>\<close>, which are false on
  \<open>NaN\<close>: a frame whose latitude is a lone minus sign yields an event with latitude
  \<open>NaN\<close>, and the message handler stores it.
\<close>

theorem decodeBlitzortung_NaN_event:
  "decodeBlitzortung minus_frame
     = Some \<lparr>lat = NaN, lon = Fin (279 / 2), time = Fin 1700000000000\<rparr>
   \<and> strikes (lightningStore (blitz_on_message (\<lambda>r m. False) ''n1'' minus_frame
        \<lparr>lightningStore = new_LightningStore,
         hub = \<lparr>sseClients = [], written = (\<lambda>r. [])\<rparr>, heartbeats = []\<rparr>))
     = [\<lparr>lat = NaN, lon = Fin (279 / 2), time = Fin 1700000000000, strike_id = ''n1''\<rparr>]"
  by (simp add: decode_minus_frame blitz_on_message_def add_def new_LightningStore_def Let_def)

lemma decode_plain_frame:
  "decodeBlitzortung plain_frame
     = Some \<lparr>lat = Fin (71 / 2), lon = Fin (279 / 2), time = Fin 1700000000000\<rparr>"
  using round64_nat_exact [of 1700000000000] round64_139_5 round64_35_5
  by (simp add: plain_frame_def decodeBlitzortung_def ascii_def strip_noise_def
      replace_structural_def match_at_def strip_prefix_def is_digit_def is_numch_def
      parseInt_def parseFloat_def dec_def js_gt_def Let_def)

section \<open>Properties of the connectors\<close>

text \<open>Outside the guarded case a call creates exactly one socket, or schedules the retry.\<close>

lemma connectBlitzortung_attempt:
  assumes "\<not> isConnecting st" and "\<not> ws_open (sockets st) (blitzortungWs st)"
  shows "length (sockets (connectBlitzortung False st)) = length (sockets st) + 1
       \<and> isConnecting (connectBlitzortung False st)
       \<and> sockets (connectBlitzortung True st) = sockets st
       \<and> reconnectTimer (connectBlitzortung True st) = Some 5000"
  using assms by (simp add: connectBlitzortung_def scheduleReconnect_def Let_def)

text \<open>
  However often \<open>connectBlitzortung\<close> is called between two socket events, at most one
  socket is created: the first attempt sets the flag, and every further call is a
  no-op.
\<close>

lemma connectBlitzortung_flag_stays:
  "isConnecting st \<Longrightarrow> foldl (\<lambda>s t. connectBlitzortung t s) st ts = st"
  by (induction ts) (simp_all add: connectBlitzortung_def)

lemma connectBlitzortung_repeated:
  "length (sockets (foldl (\<lambda>s t. connectBlitzortung t s) st ts)) \<le> length (sockets st) + 1"
proof (induction ts arbitrary: st)
  case Nil
  then show ?case by simp
next
  case (Cons t ts)
  show ?case
  proof (cases "isConnecting st \<or> ws_open (sockets st) (blitzortungWs st)")
    case True
    then have "connectBlitzortung t st = st" by (simp add: connectBlitzortung_def)
    with Cons.IH [of st] show ?thesis by simp
  next
    case False
    show ?thesis
    proof (cases t)
      case True
      with False have "sockets (connectBlitzortung t st) = sockets st"
        by (simp add: connectBlitzortung_def scheduleReconnect_def Let_def)
      with Cons.IH [of "connectBlitzortung t st"] show ?thesis by simp
    next
      case f: False
      with False have c: "isConnecting (connectBlitzortung t st)"
        and l: "length (sockets (connectBlitzortung t st)) = length (sockets st) + 1"
        by (simp_all add: connectBlitzortung_def Let_def)
      from connectBlitzortung_flag_stays [OF c, of ts] l show ?thesis by simp
    qed
  qed
qed














text \<open>
  Claim C9, as amended, feed by feed.  Without \<open>AISSTREAM_API_KEY\<close> the connector of
  the vessel feed returns at once, creating no socket and leaving its state unchanged, and
  the feed reports itself disabled and not available.  Without \<open>N2YO_API_KEY\<close> the
  query \<open>satellites.tracked\<close> returns \<open>available: false\<close> with no satellites instead
  of throwing, while the query \<open>satellites.position\<close> throws.
\<close>

theorem missing_credential_per_feed:
  "(penv ''AISSTREAM_API_KEY'' = None
      \<longrightarrow> connectAISStream penv ctor_throws st = st
          \<and> getAISStreamStatus penv st = Disabled_status
          \<and> \<not> isAvailable penv)
   \<and> (penv ''N2YO_API_KEY'' = None
      \<longrightarrow> satellites_tracked penv fetchAllSatellites
            = Inr \<lparr>available = False, message = Some ''N2YO API key not configured'',
                   count = None, satellites = []\<rparr>
          \<and> satellites_position penv fetchPinnedPosition satId = Inl ''N2YO API key not configured'')"
  by (simp add: connectAISStream_def getAISStreamStatus_def isAvailable_def satellites_tracked_def
      satellites_position_def no_key_def)

theorem missing_credential_per_feed_witness:
  "only_n2yo ''AISSTREAM_API_KEY'' = None
   \<and> only_n2yo ''N2YO_API_KEY'' = Some ''k1''
   \<and> connectAISStream only_n2yo False ais_init = ais_init
   \<and> getAISStreamStatus only_n2yo ais_init = Disabled_status
   \<and> \<not> isAvailable only_n2yo
   \<and> only_aisstream ''N2YO_API_KEY'' = None
   \<and> only_aisstream ''AISSTREAM_API_KEY'' = Some ''k2''
   \<and> satellites_tracked only_aisstream (\<lambda>k. Inl ''unreachable'')
       = Inr \<lparr>available = False, message = Some ''N2YO API key not configured'',
              count = None, satellites = []\<rparr>
   \<and> satellites_position only_aisstream (\<lambda>i k. Inl ''unreachable'') (Fin 25544)
       = Inl ''N2YO API key not configured''"
proof -
  have a: "only_n2yo ''AISSTREAM_API_KEY'' = None" and a': "only_n2yo ''N2YO_API_KEY'' = Some ''k1''"
    by (simp_all add: only_n2yo_def)
  have b: "only_aisstream ''N2YO_API_KEY'' = None"
    and b': "only_aisstream ''AISSTREAM_API_KEY'' = Some ''k2''"
    by (simp_all add: only_aisstream_def)
  from missing_credential_per_feed [of only_n2yo False ais_init "\<lambda>k. Inl ''unreachable''"
      "\<lambda>i k. Inl ''unreachable''" "Fin 25544"] a
  have 1: "connectAISStream only_n2yo False ais_init = ais_init
      \<and> getAISStreamStatus only_n2yo ais_init = Disabled_status \<and> \<not> isAvailable only_n2yo"
    by blast
  from missing_credential_per_feed [of only_aisstream False ais_init "\<lambda>k. Inl ''unreachable''"
      "\<lambda>i k. Inl ''unreachable''" "Fin 25544"] b
  have 2: "satellites_tracked only_aisstream (\<lambda>k. Inl ''unreachable'')
       = Inr \<lparr>available = False, message = Some ''N2YO API key not configured'',
              count = None, satellites = []\<rparr>
    \<and> satellites_position only_aisstream (\<lambda>i k. Inl ''unreachable'') (Fin 25544)
       = Inl ''N2YO API key not configured''"
    by blast
  from a a' b b' 1 2 show ?thesis by simp
qed

text \<open>
  Claim C9 as stated fails for the query \<open>satellites.position\<close>: without the key it
  throws.
\<close>

theorem satellites_position_throws_counterexample:
  "satellites_position Map.empty (\<lambda>i k. Inl ''unreachable'') (Fin 25544)
     = Inl ''N2YO API key not configured''"
  by (simp add: satellites_position_def no_key_def)

section \<open>Properties of the vessel message handler\<close>

lemma literal_001_above: "(1 / 100 :: rat) < 5764607523034235 / 2 ^ 59"
  by simp

text \<open>
  Claim C10.  A position report whose extracted latitude or longitude is exactly 0, or
  whose latitude and longitude are both below 0.01 in absolute value, leaves the server
  as it was: no vessel is stored and nothing is written to any client.  A report exactly
  on the equator or on the prime meridian is among them.
\<close>

theorem ais_on_message_drops:
  assumes "la = nullish (Option.bind (PositionReport msg) Latitude)
                        (Option.bind (Metadata msg) meta_Latitude)"
    and "lo = nullish (Option.bind (PositionReport msg) Longitude)
                      (Option.bind (Metadata msg) meta_Longitude)"
    and "la = Some (Fin 0) \<or> lo = Some (Fin 0)
         \<or> (\<exists>x y. la = Some (Fin x) \<and> lo = Some (Fin y) \<and> \<bar>x\<bar> < 1 / 100 \<and> \<bar>y\<bar> < 1 / 100)"
  shows "ais_on_message throws num_str now (Some msg) sv = sv"
proof -
  from assms(3) consider
      (lat0) "la = Some (Fin 0)"
    | (lon0) "lo = Some (Fin 0)"
    | (island) x y where "la = Some (Fin x)" "lo = Some (Fin y)" "\<bar>x\<bar> < 1 / 100" "\<bar>y\<bar> < 1 / 100"
    by blast
  then show ?thesis
  proof cases
    case lat0
    then show ?thesis
      using assms(1)
      by (simp add: ais_on_message_def Let_def split: option.splits)
  next
    case lon0
    then show ?thesis
      using assms(2)
      by (simp add: ais_on_message_def Let_def split: option.splits)
  next
    case island
    from island(3,4) literal_001_above
    have "\<bar>x\<bar> < 5764607523034235 / 2 ^ 59" and "\<bar>y\<bar> < 5764607523034235 / 2 ^ 59"
      by linarith+
    then have "js_lt (Math_abs (Fin x)) (Fin (5764607523034235 / 2 ^ 59))"
      and "js_lt (Math_abs (Fin y)) (Fin (5764607523034235 / 2 ^ 59))"
      by simp_all
    with island(1,2) show ?thesis
      using assms(1,2)
      by (simp add: ais_on_message_def Let_def split: option.splits)
  qed
qed

theorem ais_on_message_drops_witness:
  "ais_on_message (\<lambda>r m. False) (\<lambda>n. ascii ''211000000'') 1700000000000
      (Some (report_at 0 10))
      \<lparr>vesselStore = new_VesselStore, vessel_hub = \<lparr>sseClients = [(''c1'', 0)], written = (\<lambda>r. [])\<rparr>\<rparr>
    = \<lparr>vesselStore = new_VesselStore, vessel_hub = \<lparr>sseClients = [(''c1'', 0)], written = (\<lambda>r. [])\<rparr>\<rparr>
   \<and> ais_on_message (\<lambda>r m. False) (\<lambda>n. ascii ''211000000'') 1700000000000
      (Some (report_at (1 / 256) (- 1 / 256)))
      \<lparr>vesselStore = new_VesselStore, vessel_hub = \<lparr>sseClients = [(''c1'', 0)], written = (\<lambda>r. [])\<rparr>\<rparr>
    = \<lparr>vesselStore = new_VesselStore, vessel_hub = \<lparr>sseClients = [(''c1'', 0)], written = (\<lambda>r. [])\<rparr>\<rparr>"
proof -
  have a: "ais_on_message (\<lambda>r m. False) (\<lambda>n. ascii ''211000000'') 1700000000000
      (Some (report_at 0 10))
      \<lparr>vesselStore = new_VesselStore, vessel_hub = \<lparr>sseClients = [(''c1'', 0)], written = (\<lambda>r. [])\<rparr>\<rparr>
    = \<lparr>vesselStore = new_VesselStore, vessel_hub = \<lparr>sseClients = [(''c1'', 0)], written = (\<lambda>r. [])\<rparr>\<rparr>"
    by (rule ais_on_message_drops [where la = "Some (Fin 0)" and lo = "Some (Fin 10)"])
       (simp_all add: report_at_def nullish_def)
  have b: "ais_on_message (\<lambda>r m. False) (\<lambda>n. ascii ''211000000'') 1700000000000
      (Some (report_at (1 / 256) (- 1 / 256)))
      \<lparr>vesselStore = new_VesselStore, vessel_hub = \<lparr>sseClients = [(''c1'', 0)], written = (\<lambda>r. [])\<rparr>\<rparr>
    = \<lparr>vesselStore = new_VesselStore, vessel_hub = \<lparr>sseClients = [(''c1'', 0)], written = (\<lambda>r. [])\<rparr>\<rparr>"
  proof (rule ais_on_message_drops [where la = "Some (Fin (1 / 256))" and lo = "Some (Fin (- 1 / 256))"])
    show "Some (Fin (1 / 256)) = nullish (Option.bind (PositionReport (report_at (1 / 256) (- 1 / 256))) Latitude)
            (Option.bind (Metadata (report_at (1 / 256) (- 1 / 256))) meta_Latitude)"
      by (simp add: report_at_def nullish_def)
    show "Some (Fin (- 1 / 256)) = nullish (Option.bind (PositionReport (report_at (1 / 256) (- 1 / 256))) Longitude)
            (Option.bind (Metadata (report_at (1 / 256) (- 1 / 256))) meta_Longitude)"
      by (simp add: report_at_def nullish_def)
    show "Some (Fin (1 / 256)) = Some (Fin 0) \<or> Some (Fin (- 1 / 256)) = Some (Fin 0)
          \<or> (\<exists>x y. Some (Fin (1 / 256)) = Some (Fin x) \<and> Some (Fin (- 1 / 256)) = Some (Fin y)
                  \<and> \<bar>x\<bar> < 1 / 100 \<and> \<bar>y\<bar> < 1 / 100)"
      by (intro disjI2 exI [of _ "1 / 256"] exI [of _ "- 1 / 256"]) simp
  qed
  from a b show ?thesis by (rule conjI)
qed

text \<open>The same report one degree north of the equator is stored and broadcast.\<close>

lemma ais_on_message_stores:
  "vessels (vesselStore (ais_on_message (\<lambda>r m. False) (\<lambda>n. ascii ''211000000'') 1700000000000
      (Some (report_at 1 10))
      \<lparr>vesselStore = new_VesselStore, vessel_hub = \<lparr>sseClients = [(''c1'', 0)], written = (\<lambda>r. [])\<rparr>\<rparr>))
    = [(ascii ''211000000'',
        \<lparr>mmsi = ascii ''211000000'', name = ascii ''EQUATOR'', vessel_lat = Fin 1, vessel_lon = Fin 10,
         cog = Fin 90, sog = Fin 12, heading = Fin 90, vessel_time = Fin 1700000000000,
         shipType = None\<rparr>)]"
  by (simp add: ais_on_message_def report_at_def nullish_def Let_def ascii_def trim_def is_space_def
      update_def new_VesselStore_def Map_set_def js_gt_def)

section \<open>Properties of the broadcast\<close>

text \<open>The loop of \<open>forEach\<close>: the registry, the array \<open>toDelete\<close> and what is written.\<close>

lemma try_write_step:
  "try_write t m (h, d) (c, r) = (if t r m then (h, d @ [c]) else (res_write r m h, d))"
  by (simp add: try_write_def)

lemma loop_sseClients:
  "sseClients (fst (foldl (try_write t m) (h, d) es)) = sseClients h"
proof (induction es arbitrary: h d)
  case Nil
  then show ?case by simp
next
  case (Cons e es)
  obtain c r where e: "e = (c, r)" by (cases e)
  show ?case
    by (cases "t r m") (simp_all add: e try_write_step Cons.IH res_write_def)
qed

lemma loop_toDelete:
  "snd (foldl (try_write t m) (h, d) es) = d @ map fst (filter (\<lambda>e. t (snd e) m) es)"
proof (induction es arbitrary: h d)
  case Nil
  then show ?case by simp
next
  case (Cons e es)
  obtain c r where e: "e = (c, r)" by (cases e)
  show ?case
    by (cases "t r m") (simp_all add: e try_write_step Cons.IH)
qed

lemma loop_written:
  "written (fst (foldl (try_write t m) (h, d) es)) x
     = written h x @ replicate (length (filter (\<lambda>e. snd e = x \<and> \<not> t x m) es)) m"
proof (induction es arbitrary: h d)
  case Nil
  then show ?case by simp
next
  case (Cons e es)
  obtain c r where e: "e = (c, r)" by (cases e)
  show ?case
  proof (cases "t r m")
    case True
    then show ?thesis
      by (auto simp: e try_write_step Cons.IH)
  next
    case False
    then show ?thesis
      by (cases "r = x") (simp_all add: e try_write_step Cons.IH res_write_def)
  qed
qed

lemma removeSSEClient_sseClients:
  "sseClients (removeSSEClient c h) = filter (\<lambda>e. fst e \<noteq> c) (sseClients h)"
  by (simp add: removeSSEClient_def Map_delete_def case_prod_unfold)

lemma removeSSEClient_written: "written (removeSSEClient c h) = written h"
  by (simp add: removeSSEClient_def)

lemma delete_phase_sseClients:
  "sseClients (foldl (\<lambda>h' c. removeSSEClient c h') h ds)
     = filter (\<lambda>e. fst e \<notin> set ds) (sseClients h)"
proof (induction ds arbitrary: h)
  case Nil
  then show ?case by simp
next
  case (Cons c ds)
  show ?case
    by (simp add: Cons.IH removeSSEClient_sseClients conj_commute)
qed

lemma delete_phase_written:
  "written (foldl (\<lambda>h' c. removeSSEClient c h') h ds) = written h"
  by (induction ds arbitrary: h) (simp_all add: removeSSEClient_written)

lemma broadcast_written:
  "written (broadcast t m h) x
     = written h x @ replicate (length (filter (\<lambda>e. snd e = x \<and> \<not> t x m) (sseClients h))) m"
proof -
  obtain h1 ds where f: "foldl (try_write t m) (h, []) (sseClients h) = (h1, ds)"
    by (cases "foldl (try_write t m) (h, []) (sseClients h)")
  have "written h1 x
     = written h x @ replicate (length (filter (\<lambda>e. snd e = x \<and> \<not> t x m) (sseClients h))) m"
    using loop_written [of t m h "[]" "sseClients h" x] f by simp
  then show ?thesis
    by (simp add: broadcast_def f delete_phase_written)
qed

lemma broadcast_sseClients:
  assumes "distinct (map fst (sseClients h))"
  shows "sseClients (broadcast t m h) = filter (\<lambda>e. \<not> t (snd e) m) (sseClients h)"
proof -
  obtain h1 ds where f: "foldl (try_write t m) (h, []) (sseClients h) = (h1, ds)"
    by (cases "foldl (try_write t m) (h, []) (sseClients h)")
  have h1: "sseClients h1 = sseClients h"
    using loop_sseClients [of t m h "[]" "sseClients h"] f by simp
  have ds: "ds = map fst (filter (\<lambda>e. t (snd e) m) (sseClients h))"
    using loop_toDelete [of t m h "[]" "sseClients h"] f by simp
  have "filter (\<lambda>e. fst e \<notin> set ds) (sseClients h) = filter (\<lambda>e. \<not> t (snd e) m) (sseClients h)"
  proof (rule filter_cong [OF refl])
    fix e assume e: "e \<in> set (sseClients h)"
    show "(fst e \<notin> set ds) = (\<not> t (snd e) m)"
    proof
      assume "fst e \<notin> set ds"
      with e show "\<not> t (snd e) m" by (auto simp: ds)
    next
      assume nt: "\<not> t (snd e) m"
      show "fst e \<notin> set ds"
      proof
        assume "fst e \<in> set ds"
        then obtain e' where e': "e' \<in> set (sseClients h)" "t (snd e') m" "fst e' = fst e"
          by (auto simp: ds)
        from assms e e'(1,3) have "e' = e"
          by (metis eq_key_imp_eq_value prod.collapse)
        with e'(2) nt show False by simp
      qed
    qed
  qed
  then show ?thesis
    by (simp add: broadcast_def f delete_phase_sseClients h1)
qed

lemma count_handle_one:
  "distinct (map snd es) \<Longrightarrow> (c, x) \<in> set es \<Longrightarrow> length (filter (\<lambda>e. snd e = x) es) = 1"
proof (induction es)
  case Nil
  then show ?case by simp
next
  case (Cons e es)
  show ?case
  proof (cases "e = (c, x)")
    case True
    from Cons.prems(1) True have "x \<notin> snd ` set es" by simp
    then have "filter (\<lambda>e. snd e = x) es = []"
      by (auto simp: filter_empty_conv)
    with True show ?thesis by simp
  next
    case False
    with Cons.prems have m: "(c, x) \<in> set es" by simp
    with Cons.prems(1) have "snd e \<noteq> x" by (auto simp: image_iff)
    with Cons.IH m Cons.prems(1) show ?thesis by simp
  qed
qed

lemma count_handle_none:
  "x \<notin> snd ` set es \<Longrightarrow> filter (\<lambda>e. snd e = x \<and> P e) es = []"
  by (auto simp: filter_empty_conv)

text \<open>Later publications never reach a handle that is not registered.\<close>

lemma publish_all_unregistered:
  "distinct (map fst (sseClients h)) \<Longrightarrow> x \<notin> snd ` set (sseClients h)
   \<Longrightarrow> written (publish_all steps h) x = written h x"
proof (induction steps arbitrary: h)
  case Nil
  then show ?case by (simp add: publish_all_def)
next
  case (Cons s steps)
  let ?h = "broadcast (fst s) (snd s) h"
  have reg: "sseClients ?h = filter (\<lambda>e. \<not> fst s (snd e) (snd s)) (sseClients h)"
    using Cons.prems(1) by (rule broadcast_sseClients)
  have d: "distinct (map fst (sseClients ?h))"
    using Cons.prems(1) by (simp add: reg distinct_map_filter)
  have n: "x \<notin> snd ` set (sseClients ?h)"
    using Cons.prems(2) by (auto simp: reg)
  have "written (publish_all steps ?h) x = written ?h x"
    using d n by (rule Cons.IH)
  also have "\<dots> = written h x"
    using Cons.prems(2) by (simp add: broadcast_written count_handle_none)
  finally show ?case by (simp add: publish_all_def)
qed

text \<open>A registered handle whose writes never throw receives every publication once.\<close>

lemma publish_all_live:
  "distinct (map fst (sseClients h)) \<Longrightarrow> distinct (map snd (sseClients h))
   \<Longrightarrow> (c, x) \<in> set (sseClients h) \<Longrightarrow> \<forall>s \<in> set steps. \<not> fst s x (snd s)
   \<Longrightarrow> written (publish_all steps h) x = written h x @ map snd steps
       \<and> (c, x) \<in> set (sseClients (publish_all steps h))"
proof (induction steps arbitrary: h)
  case Nil
  then show ?case by (simp add: publish_all_def)
next
  case (Cons s steps)
  let ?h = "broadcast (fst s) (snd s) h"
  have reg: "sseClients ?h = filter (\<lambda>e. \<not> fst s (snd e) (snd s)) (sseClients h)"
    using Cons.prems(1) by (rule broadcast_sseClients)
  have nt: "\<not> fst s x (snd s)" using Cons.prems(4) by simp
  have d1: "distinct (map fst (sseClients ?h))"
    using Cons.prems(1) by (simp add: reg distinct_map_filter)
  have d2: "distinct (map snd (sseClients ?h))"
    using Cons.prems(2) by (simp add: reg distinct_map_filter)
  have m: "(c, x) \<in> set (sseClients ?h)"
    using Cons.prems(3) nt by (simp add: reg)
  have rest: "\<forall>s \<in> set steps. \<not> fst s x (snd s)" using Cons.prems(4) by simp
  have w: "written ?h x = written h x @ [snd s]"
    using nt count_handle_one [OF Cons.prems(2,3)] by (simp add: broadcast_written)
  from Cons.IH [OF d1 d2 m rest] w show ?case
    by (simp add: publish_all_def)
qed

text \<open>
  Claim C7.  In a publication where the write to a registered subscriber throws, the
  registry is untouched at every point of the iteration; after the publication that
  subscriber is no longer registered, and neither this nor any later publication writes
  to it.  Every other registered subscriber whose writes succeed gets this event and
  every later one, once each, and stays registered.
\<close>

theorem broadcastLightning_failed_write:
  assumes "distinct (map fst (sseClients h))" and "distinct (map snd (sseClients h))"
    and "(c, r) \<in> set (sseClients h)" and "throws r (Strike s)"
    and "(c', r') \<in> set (sseClients h)" and "\<not> throws r' (Strike s)"
    and "\<forall>st \<in> set steps. \<not> fst st r' (snd st)"
  shows "(\<forall>n. sseClients (fst (foldl (try_write throws (Strike s)) (h, []) (take n (sseClients h))))
               = sseClients h)
       \<and> (c, r) \<notin> set (sseClients (broadcastLightning throws s h))
       \<and> written (broadcastLightning throws s h) r = written h r
       \<and> written (publish_all steps (broadcastLightning throws s h)) r = written h r
       \<and> (c', r') \<in> set (sseClients (broadcastLightning throws s h))
       \<and> written (broadcastLightning throws s h) r' = written h r' @ [Strike s]
       \<and> written (publish_all steps (broadcastLightning throws s h)) r'
           = written h r' @ Strike s # map snd steps
       \<and> (c', r') \<in> set (sseClients (publish_all steps (broadcastLightning throws s h)))"
proof -
  let ?h = "broadcast throws (Strike s) h"
  have reg: "sseClients ?h = filter (\<lambda>e. \<not> throws (snd e) (Strike s)) (sseClients h)"
    using assms(1) by (rule broadcast_sseClients)
  have d1: "distinct (map fst (sseClients ?h))"
    using assms(1) by (simp add: reg distinct_map_filter)
  have d2: "distinct (map snd (sseClients ?h))"
    using assms(2) by (simp add: reg distinct_map_filter)
  have gone: "(c, r) \<notin> set (sseClients ?h)"
    using assms(4) by (simp add: reg)
  have r_out: "r \<notin> snd ` set (sseClients ?h)"
  proof
    assume "r \<in> snd ` set (sseClients ?h)"
    then obtain e where e: "e \<in> set (sseClients h)" "snd e = r" "\<not> throws (snd e) (Strike s)"
      by (auto simp: reg)
    with assms(4) show False by simp
  qed
  have w_r: "written ?h r = written h r"
    using assms(4) by (simp add: broadcast_written)
  have later_r: "written (publish_all steps ?h) r = written ?h r"
    using d1 r_out by (rule publish_all_unregistered)
  have stays: "(c', r') \<in> set (sseClients ?h)"
    using assms(5,6) by (simp add: reg)
  have w_r': "written ?h r' = written h r' @ [Strike s]"
    using assms(6) count_handle_one [OF assms(2,5)] by (simp add: broadcast_written)
  have later_r': "written (publish_all steps ?h) r' = written ?h r' @ map snd steps
                \<and> (c', r') \<in> set (sseClients (publish_all steps ?h))"
    using d1 d2 stays assms(7) by (rule publish_all_live)
  have during: "\<forall>n. sseClients (fst (foldl (try_write throws (Strike s)) (h, []) (take n (sseClients h))))
                  = sseClients h"
    by (simp add: loop_sseClients)
  from during gone w_r later_r stays w_r' later_r' show ?thesis
    by (simp add: broadcastLightning_def)
qed

theorem broadcastLightning_failed_write_witness:
  "(\<forall>n. sseClients (fst (foldl (try_write (\<lambda>r m. r = 0) (Strike (strike_at 0 ''A'')))
             (\<lparr>sseClients = [(''dead'', 0), (''live'', 1)], written = (\<lambda>r. [])\<rparr>, [])
             (take n [(''dead'', 0), (''live'', 1)])))
        = [(''dead'', 0), (''live'', 1)])
   \<and> sseClients (broadcastLightning (\<lambda>r m. r = 0) (strike_at 0 ''A'')
         \<lparr>sseClients = [(''dead'', 0), (''live'', 1)], written = (\<lambda>r. [])\<rparr>) = [(''live'', 1)]
   \<and> written (publish_all [(\<lambda>r m. False, Strike (strike_at 1 ''B''))]
        (broadcastLightning (\<lambda>r m. r = 0) (strike_at 0 ''A'')
           \<lparr>sseClients = [(''dead'', 0), (''live'', 1)], written = (\<lambda>r. [])\<rparr>)) 0 = []
   \<and> written (publish_all [(\<lambda>r m. False, Strike (strike_at 1 ''B''))]
        (broadcastLightning (\<lambda>r m. r = 0) (strike_at 0 ''A'')
           \<lparr>sseClients = [(''dead'', 0), (''live'', 1)], written = (\<lambda>r. [])\<rparr>)) 1
       = [Strike (strike_at 0 ''A''), Strike (strike_at 1 ''B'')]"
proof -
  let ?h = "\<lparr>sseClients = [(''dead'', 0), (''live'', 1 :: nat)], written = (\<lambda>r. [] :: sse_msg list)\<rparr>"
  have reg: "sseClients (broadcastLightning (\<lambda>r m. r = 0) (strike_at 0 ''A'') ?h) = [(''live'', 1)]"
    using broadcast_sseClients [of ?h "\<lambda>r m. r = 0" "Strike (strike_at 0 ''A'')"]
    by (simp add: broadcastLightning_def)
  from broadcastLightning_failed_write [of ?h "''dead''" 0 "\<lambda>r m. r = 0" "strike_at 0 ''A''"
      "''live''" 1 "[(\<lambda>r m. False, Strike (strike_at 1 ''B''))]"] reg
  show ?thesis by simp
qed

section \<open>Properties of a subscriber session\<close>

lemma blitz_on_message_hub:
  "hub (blitz_on_message t nid raw sv) = publish_all (live_steps [(t, nid, raw)]) (hub sv)"
  by (cases "decodeBlitzortung raw")
     (simp_all add: blitz_on_message_def live_steps_def publish_all_def broadcastLightning_def Let_def)

lemma blitz_on_message_store:
  "lightningStore (blitz_on_message t nid raw sv)
     = foldl (\<lambda>s x. add x s) (lightningStore sv) (live_strikes [(t, nid, raw)])"
  by (cases "decodeBlitzortung raw")
     (simp_all add: blitz_on_message_def live_strikes_def Let_def)

lemma live_steps_Cons: "live_steps (f # fs) = live_steps [f] @ live_steps fs"
  by (simp add: live_steps_def)

lemma live_strikes_Cons: "live_strikes (f # fs) = live_strikes [f] @ live_strikes fs"
  by (simp add: live_strikes_def)

lemma publish_all_append: "publish_all (xs @ ys) h = publish_all ys (publish_all xs h)"
  by (simp add: publish_all_def)

lemma blitz_run_hub: "hub (blitz_run frames sv) = publish_all (live_steps frames) (hub sv)"
proof (induction frames arbitrary: sv)
  case Nil
  then show ?case by (simp add: blitz_run_def live_steps_def publish_all_def)
next
  case (Cons f fs)
  obtain t nid raw where f: "f = (t, nid, raw)" by (cases f) auto
  have "hub (blitz_run (f # fs) sv) = hub (blitz_run fs (blitz_on_message t nid raw sv))"
    by (simp add: blitz_run_def f)
  also have "\<dots> = publish_all (live_steps fs) (publish_all (live_steps [f]) (hub sv))"
    by (simp add: Cons.IH blitz_on_message_hub f)
  also have "\<dots> = publish_all (live_steps (f # fs)) (hub sv)"
    using live_steps_Cons [of f fs] by (simp add: publish_all_append)
  finally show ?case .
qed

lemma blitz_run_store:
  "lightningStore (blitz_run frames sv)
     = foldl (\<lambda>s x. add x s) (lightningStore sv) (live_strikes frames)"
proof (induction frames arbitrary: sv)
  case Nil
  then show ?case by (simp add: blitz_run_def live_strikes_def)
next
  case (Cons f fs)
  obtain t nid raw where f: "f = (t, nid, raw)" by (cases f) auto
  have "lightningStore (blitz_run (f # fs) sv)
      = lightningStore (blitz_run fs (blitz_on_message t nid raw sv))"
    by (simp add: blitz_run_def f)
  also have "\<dots> = foldl (\<lambda>s x. add x s)
        (foldl (\<lambda>s x. add x s) (lightningStore sv) (live_strikes [f])) (live_strikes fs)"
    by (simp add: Cons.IH blitz_on_message_store f)
  also have "\<dots> = foldl (\<lambda>s x. add x s) (lightningStore sv) (live_strikes (f # fs))"
    using live_strikes_Cons [of f fs] by simp
  finally show ?case .
qed

lemma map_snd_live_steps: "map snd (live_steps frames) = map Strike (live_strikes frames)"
proof (induction frames)
  case Nil
  then show ?case by (simp add: live_steps_def live_strikes_def)
next
  case (Cons f fs)
  have "map snd (live_steps [f]) = map Strike (live_strikes [f])"
    by (cases "decodeBlitzortung (snd (snd f))") (simp_all add: live_steps_def live_strikes_def)
  with Cons.IH live_steps_Cons [of f fs] live_strikes_Cons [of f fs] show ?case by simp
qed

lemma live_steps_oracle:
  "\<forall>f \<in> set frames. \<forall>m. \<not> fst f x m \<Longrightarrow> \<forall>st \<in> set (live_steps frames). \<not> fst st x (snd st)"
  by (auto simp: live_steps_def split: option.splits)

text \<open>
  Claim C8.  A session that attaches to a store holding 50 strikes, on a fresh response
  with a fresh client id, writes the \<open>connected\<close> message, then one \<open>history\<close> message
  with exactly those 50 strikes, and is registered after that.  What it receives from
  then on are the strikes the store records after the snapshot, each once; strikes being
  distinct, none of the history arrives again.
\<close>

theorem handleLightningSSE_history_then_live:
  assumes "length (strikes (lightningStore sv)) = 50"
    and "distinct (map fst (sseClients (hub sv)))" and "distinct (map snd (sseClients (hub sv)))"
    and "cid \<notin> fst ` set (sseClients (hub sv))" and "r \<notin> snd ` set (sseClients (hub sv))"
    and "written (hub sv) r = []"
    and "\<not> throws r (Connected cid)" and "\<not> throws r (History (strikes (lightningStore sv)))"
    and "\<forall>f \<in> set frames. \<forall>m. \<not> fst f r m"
    and "distinct (strikes (lightningStore sv) @ live_strikes frames)"
  shows "fst (handleLightningSSE throws cid r sv) = Returned
       \<and> written (hub (snd (handleLightningSSE throws cid r sv))) r
           = [Connected cid, History (strikes (lightningStore sv))]
       \<and> sseClients (hub (snd (handleLightningSSE throws cid r sv)))
           = sseClients (hub sv) @ [(cid, r)]
       \<and> lightningStore (snd (handleLightningSSE throws cid r sv)) = lightningStore sv
       \<and> written (hub (blitz_run frames (snd (handleLightningSSE throws cid r sv)))) r
           = [Connected cid, History (strikes (lightningStore sv))]
             @ map Strike (live_strikes frames)
       \<and> lightningStore (blitz_run frames (snd (handleLightningSSE throws cid r sv)))
           = foldl (\<lambda>s x. add x s) (lightningStore sv) (live_strikes frames)
       \<and> (\<forall>x \<in> set (strikes (lightningStore sv)).
            Strike x \<notin> set (drop 2 (written (hub (blitz_run frames
                                        (snd (handleLightningSSE throws cid r sv)))) r)))"
proof -
  let ?hist = "strikes (lightningStore sv)"
  let ?sv = "snd (handleLightningSSE throws cid r sv)"
  have recent: "getRecent 50 (lightningStore sv) = ?hist"
    using assms(1) getRecent_pos [of 50 "lightningStore sv"] by simp
  have res: "handleLightningSSE throws cid r sv
      = (Returned, sv\<lparr>hub := addSSEClient cid r
                       (res_write r (History ?hist) (res_write r (Connected cid) (hub sv))),
                     heartbeats := heartbeats sv @ [(cid, r)]\<rparr>)"
    using assms(1,7,8) by (simp add: handleLightningSSE_def Let_def recent)
  have w: "written (hub ?sv) r = [Connected cid, History ?hist]"
    using assms(6) by (simp add: res addSSEClient_def res_write_def)
  have reg: "sseClients (hub ?sv) = sseClients (hub sv) @ [(cid, r)]"
    using assms(4) by (simp add: res addSSEClient_def res_write_def Map_set_def)
  have st: "lightningStore ?sv = lightningStore sv"
    by (simp add: res)
  have d1: "distinct (map fst (sseClients (hub ?sv)))"
    using assms(2,4) by (simp add: reg)
  have d2: "distinct (map snd (sseClients (hub ?sv)))"
    using assms(3,5) by (simp add: reg)
  have m: "(cid, r) \<in> set (sseClients (hub ?sv))"
    by (simp add: reg)
  have "written (publish_all (live_steps frames) (hub ?sv)) r
          = written (hub ?sv) r @ map snd (live_steps frames)
        \<and> (cid, r) \<in> set (sseClients (publish_all (live_steps frames) (hub ?sv)))"
    using d1 d2 m live_steps_oracle [OF assms(9)] by (rule publish_all_live)
  then have live: "written (hub (blitz_run frames ?sv)) r
      = [Connected cid, History ?hist] @ map Strike (live_strikes frames)"
    by (simp add: blitz_run_hub w map_snd_live_steps)
  have store: "lightningStore (blitz_run frames ?sv)
      = foldl (\<lambda>s x. add x s) (lightningStore sv) (live_strikes frames)"
    by (simp add: blitz_run_store st)
  have nodup: "\<forall>x \<in> set ?hist. Strike x \<notin> set (drop 2 (written (hub (blitz_run frames ?sv)) r))"
    using assms(10) by (auto simp: live)
  from res w reg st live store nodup show ?thesis by simp
qed

text \<open>A new subscriber of \<open>server50\<close>, and one frame arriving after it attached.\<close>

lemma live_strikes_plain:
  "live_strikes [(\<lambda>r m. False, ''n1'', plain_frame)]
     = [\<lparr>lat = Fin (71 / 2), lon = Fin (279 / 2), time = Fin 1700000000000, strike_id = ''n1''\<rparr>]"
  by (simp add: live_strikes_def decode_plain_frame)

lemma distinct_fifty_strikes: "distinct fifty_strikes"
  by (simp add: fifty_strikes_def distinct_map inj_on_def strike_at_def)

theorem handleLightningSSE_history_then_live_witness:
  "fst (handleLightningSSE (\<lambda>r m. False) ''new'' 8 server50) = Returned
   \<and> written (hub (snd (handleLightningSSE (\<lambda>r m. False) ''new'' 8 server50))) 8
       = [Connected ''new'', History fifty_strikes]
   \<and> sseClients (hub (snd (handleLightningSSE (\<lambda>r m. False) ''new'' 8 server50)))
       = [(''old'', 7), (''new'', 8)]
   \<and> written (hub (blitz_run [(\<lambda>r m. False, ''n1'', plain_frame)]
                  (snd (handleLightningSSE (\<lambda>r m. False) ''new'' 8 server50)))) 8
       = [Connected ''new'', History fifty_strikes,
          Strike \<lparr>lat = Fin (71 / 2), lon = Fin (279 / 2), time = Fin 1700000000000,
                  strike_id = ''n1''\<rparr>]"
proof -
  have d: "distinct (strikes (lightningStore server50)
                      @ live_strikes [(\<lambda>r m. False, ''n1'', plain_frame)])"
    using distinct_fifty_strikes
    by (auto simp: server50_def live_strikes_plain fifty_strikes_def strike_at_def)
  have l: "length (strikes (lightningStore server50)) = 50"
    by (simp add: server50_def fifty_strikes_def)
  from handleLightningSSE_history_then_live [of server50 "''new''" 8 "\<lambda>r m. False"
      "[(\<lambda>r m. False, ''n1'', plain_frame)]", OF l _ _ _ _ _ _ _ _ d]
  show ?thesis
    by (simp add: server50_def live_strikes_plain)
qed

end
